(* ===== verification/Prelude.thy ===== *)
theory Prelude
  imports Main "HOL-Library.List_Lexorder" "HOL-Library.Char_ord" "HOL-Library.AList"
    "HOL-Library.Multiset" "HOL-Library.Sublist"
begin

text \<open>
  What the components share: Go strings (byte strings, with the functions of the packages
  \<open>strings\<close> and \<open>strconv\<close> that the program calls), instants and durations,
  Go maps as association lists with distinct keys, and sorting.

  A \<^emph>\<open>Go string\<close> is a sequence of bytes, so it is a HOL \<open>string\<close>
  (a list of 8-bit characters) and its order is the bytewise lexicographic one of
  \<open>List_Lexorder\<close> and \<open>Char_ord\<close>, as in \<open>sort.Strings\<close>.

  A \<^emph>\<open>Go map\<close> is an association list whose keys are distinct (\<open>gomap\<close>).
  A \<open>range\<close> loop visits it in list order. Go leaves that order open, so a theorem
  that holds for every list with the same content (\<open>map_of\<close>) covers every order.
\<close>

section \<open>Collections of facts\<close>

named_theorems gomap_simps "how the map operations act on lookups and on the key lists"
named_theorems wf_intros "introduction rules of the well-formedness invariants"

section \<open>Instants and durations\<close>

text \<open>
  A \<open>time.Time\<close> is the number of nanoseconds since the Unix epoch, a
  \<open>time.Duration\<close> a number of nanoseconds. The zero \<open>time.Time\<close> is the first
  instant of year 1, which \<open>IsZero\<close> tests for.
\<close>

type_synonym time = int
type_synonym duration = int

definition second_ns :: duration where
  "second_ns = 1000000000"

definition zero_time :: time where
  "zero_time = -62135596800 * second_ns"

definition isZero :: "time \<Rightarrow> bool" where
  "isZero t \<longleftrightarrow> t = zero_time"

definition unix_seconds :: "time \<Rightarrow> int" where
  "unix_seconds t = t div second_ns"

lemma isZero_zero_time [simp]: "isZero zero_time"
  by (simp add: isZero_def)

section \<open>Errors\<close>

text \<open>
  An error value is its message (\<open>err.Error()\<close>); a call that can fail returns
  \<open>Inl\<close> the error or \<open>Inr\<close> the result.
\<close>

type_synonym error = string

section \<open>Go strings\<close>

text \<open>
  \<open>strings.ToLower\<close>. Bytes outside ASCII are kept, so the function is Go's on every
  ASCII string. GitHub logins and the registry's slugs are ASCII.
\<close>

definition lower_char :: "char \<Rightarrow> char" where
  "lower_char c = (if CHR ''A'' \<le> c \<and> c \<le> CHR ''Z'' then char_of (of_char c + 32 :: nat) else c)"

definition toLower :: "string \<Rightarrow> string" where
  "toLower s = map lower_char s"

lemma lower_char_not_upper: "\<not> (CHR ''A'' \<le> lower_char c \<and> lower_char c \<le> CHR ''Z'')"
proof (cases "CHR ''A'' \<le> c \<and> c \<le> CHR ''Z''")
  case True
  then have "65 \<le> (of_char c :: nat)" and "(of_char c :: nat) \<le> 90"
    by (simp_all add: less_eq_char_def)
  then have "of_char (char_of (of_char c + 32 :: nat)) = (of_char c + 32 :: nat)"
    by simp
  with True \<open>65 \<le> (of_char c :: nat)\<close> show ?thesis
    by (simp add: lower_char_def less_eq_char_def)
next
  case False
  then show ?thesis by (auto simp: lower_char_def)
qed

lemma lower_char_idem [simp]: "lower_char (lower_char c) = lower_char c"
  using lower_char_not_upper [of c] by (simp only: lower_char_def [of "lower_char c"] if_False)

lemma toLower_idem [simp]: "toLower (toLower s) = toLower s"
  by (simp add: toLower_def)

lemma toLower_Nil [simp]: "toLower [] = []"
  by (simp add: toLower_def)

lemma toLower_eq_Nil_iff [simp]: "toLower s = [] \<longleftrightarrow> s = []" "[] = toLower s \<longleftrightarrow> s = []"
  by (auto simp: toLower_def)

lemma toLower_append: "toLower (s @ t) = toLower s @ toLower t"
  by (simp add: toLower_def)

text \<open>
  \<open>strings.TrimSpace\<close> drops white-space runes at both ends. The list holds the UTF-8
  encoding of every rune with Unicode's White\_Space property.
\<close>

definition white_space :: "string list" where
  "white_space =
     [[CHR 0x20], [CHR 0x09], [CHR 0x0A], [CHR 0x0B], [CHR 0x0C], [CHR 0x0D],
      [CHR 0xC2, CHR 0x85], [CHR 0xC2, CHR 0xA0], [CHR 0xE1, CHR 0x9A, CHR 0x80],
      [CHR 0xE2, CHR 0x80, CHR 0x80], [CHR 0xE2, CHR 0x80, CHR 0x81],
      [CHR 0xE2, CHR 0x80, CHR 0x82], [CHR 0xE2, CHR 0x80, CHR 0x83],
      [CHR 0xE2, CHR 0x80, CHR 0x84], [CHR 0xE2, CHR 0x80, CHR 0x85],
      [CHR 0xE2, CHR 0x80, CHR 0x86], [CHR 0xE2, CHR 0x80, CHR 0x87],
      [CHR 0xE2, CHR 0x80, CHR 0x88], [CHR 0xE2, CHR 0x80, CHR 0x89],
      [CHR 0xE2, CHR 0x80, CHR 0x8A], [CHR 0xE2, CHR 0x80, CHR 0xA8],
      [CHR 0xE2, CHR 0x80, CHR 0xA9], [CHR 0xE2, CHR 0x80, CHR 0xAF],
      [CHR 0xE2, CHR 0x81, CHR 0x9F], [CHR 0xE3, CHR 0x80, CHR 0x80]]"

fun starts_with :: "string \<Rightarrow> string \<Rightarrow> bool" where
  "starts_with [] s = True"
| "starts_with (p # ps) [] = False"
| "starts_with (p # ps) (c # cs) = (p = c \<and> starts_with ps cs)"

lemma starts_with_iff: "starts_with p s \<longleftrightarrow> (\<exists>t. s = p @ t)"
  by (induction p s rule: starts_with.induct) auto

text \<open>\<open>skip_runes ps s\<close> drops runes of \<open>ps\<close> from the front of \<open>s\<close>.\<close>

function skip_runes :: "string list \<Rightarrow> string \<Rightarrow> string" where
  "skip_runes ps s =
     (case List.find (\<lambda>p. p \<noteq> [] \<and> starts_with p s) ps of
        None \<Rightarrow> s
      | Some p \<Rightarrow> skip_runes ps (drop (length p) s))"
  by pat_completeness auto
termination
  by (relation "measure (\<lambda>(ps, s). length s)")
    (auto simp: find_Some_iff starts_with_iff)

declare skip_runes.simps [simp del]

definition trimLeft :: "string \<Rightarrow> string" where
  "trimLeft s = skip_runes white_space s"

definition trimRight :: "string \<Rightarrow> string" where
  "trimRight s = rev (skip_runes (map rev white_space) (rev s))"

definition trimSpace :: "string \<Rightarrow> string" where
  "trimSpace s = trimRight (trimLeft s)"

definition starts_rune :: "string list \<Rightarrow> string \<Rightarrow> bool" where
  "starts_rune ps s \<longleftrightarrow> (\<exists>p\<in>set ps. p \<noteq> [] \<and> starts_with p s)"

lemma skip_runes_id: "\<not> starts_rune ps s \<Longrightarrow> skip_runes ps s = s"
  by (subst skip_runes.simps) (auto simp: starts_rune_def find_None_iff split: option.splits
      dest!: find_Some_iff [THEN iffD1])

lemma skip_runes_done: "\<not> starts_rune ps (skip_runes ps s)"
proof (induction ps s rule: skip_runes.induct)
  case (1 ps s)
  then show ?case
    by (subst skip_runes.simps)
      (auto simp: starts_rune_def find_None_iff split: option.split)
qed

lemma skip_runes_suffix: "suffix (skip_runes ps s) s"
proof (induction ps s rule: skip_runes.induct)
  case (1 ps s)
  then show ?case
    by (subst skip_runes.simps)
      (auto split: option.split intro: suffix_order.trans suffix_drop)
qed

lemma starts_rune_prefix: "prefix s t \<Longrightarrow> starts_rune ps s \<Longrightarrow> starts_rune ps t"
  by (fastforce simp: starts_rune_def starts_with_iff prefix_def)

lemma trimRight_prefix: "prefix (trimRight s) s"
  using skip_runes_suffix [of "map rev white_space" "rev s"]
  by (simp add: trimRight_def suffix_to_prefix)

lemma trimSpace_idem [simp]: "trimSpace (trimSpace s) = trimSpace s"
proof -
  have "\<not> starts_rune white_space (trimLeft s)"
    by (simp add: trimLeft_def skip_runes_done)
  then have "\<not> starts_rune white_space (trimRight (trimLeft s))"
    using starts_rune_prefix [OF trimRight_prefix] by blast
  then have "trimLeft (trimSpace s) = trimSpace s"
    by (simp add: trimSpace_def trimLeft_def skip_runes_id)
  moreover have "trimRight (trimRight t) = trimRight t" for t
    by (simp add: trimRight_def skip_runes_id skip_runes_done)
  ultimately show ?thesis
    by (simp add: trimSpace_def)
qed

text \<open>\<open>strings.Split(s, "\n")\<close> and \<open>strings.Join\<close>.\<close>

fun split_on :: "char \<Rightarrow> string \<Rightarrow> string list" where
  "split_on sep [] = [[]]"
| "split_on sep (c # cs) =
     (if c = sep then [] # split_on sep cs
      else (case split_on sep cs of
              [] \<Rightarrow> [[c]]
            | w # ws \<Rightarrow> (c # w) # ws))"

fun join :: "string \<Rightarrow> string list \<Rightarrow> string" where
  "join sep [] = []"
| "join sep [w] = w"
| "join sep (w # v # ws) = w @ sep @ join sep (v # ws)"

abbreviation newline :: char where
  "newline \<equiv> CHR 0x0A"

lemma split_on_nonempty [simp]: "split_on sep s \<noteq> []"
  by (induction s) (auto split: list.splits)

lemma split_on_append_sep:
  "split_on sep (s @ sep # t) = split_on sep s @ split_on sep t"
  by (induction s) (auto split: list.splits)

lemma split_on_no_sep: "sep \<notin> set s \<Longrightarrow> split_on sep s = [s]"
  by (induction s) auto

lemma split_join:
  assumes "ws \<noteq> []" and "\<forall>w\<in>set ws. sep \<notin> set w"
  shows "split_on sep (join [sep] ws) = ws"
  using assms
  by (induction "[sep]" ws rule: join.induct) (auto simp: split_on_no_sep split_on_append_sep)

text \<open>Decimal rendering of counts and status codes (\<open>%d\<close>).\<close>

fun show_nat :: "nat \<Rightarrow> string" where
  "show_nat n = (if n < 10 then [char_of (48 + n)]
                 else show_nat (n div 10) @ [char_of (48 + n mod 10)])"

declare show_nat.simps [simp del]

definition show_int :: "int \<Rightarrow> string" where
  "show_int i = (if i < 0 then CHR ''-'' # show_nat (nat (- i)) else show_nat (nat i))"

text \<open>
  \<open>%q\<close>: \<open>strconv.Quote\<close> on ASCII text (bytes outside ASCII are kept).
\<close>

definition hex_digit :: "nat \<Rightarrow> char" where
  "hex_digit n = (if n < 10 then char_of (48 + n) else char_of (87 + n))"

definition quote_char :: "char \<Rightarrow> string" where
  "quote_char c =
     (if c = CHR 0x22 then [CHR 0x5C, CHR 0x22]
      else if c = CHR 0x5C then [CHR 0x5C, CHR 0x5C]
      else if c = CHR 0x07 then [CHR 0x5C, CHR ''a'']
      else if c = CHR 0x08 then [CHR 0x5C, CHR ''b'']
      else if c = CHR 0x0C then [CHR 0x5C, CHR ''f'']
      else if c = CHR 0x0A then [CHR 0x5C, CHR ''n'']
      else if c = CHR 0x0D then [CHR 0x5C, CHR ''r'']
      else if c = CHR 0x09 then [CHR 0x5C, CHR ''t'']
      else if c = CHR 0x0B then [CHR 0x5C, CHR ''v'']
      else if c < CHR 0x20 \<or> c = CHR 0x7F then
        [CHR 0x5C, CHR ''x'', hex_digit (of_char c div 16), hex_digit (of_char c mod 16)]
      else [c])"

definition quote :: "string \<Rightarrow> string" where
  "quote s = [CHR 0x22] @ concat (map quote_char s) @ [CHR 0x22]"


section \<open>Go maps\<close>

definition gomap :: "('k \<times> 'v) list \<Rightarrow> bool" where
  "gomap m \<longleftrightarrow> distinct (map fst m)"

abbreviation put :: "'k \<Rightarrow> 'v \<Rightarrow> ('k \<times> 'v) list \<Rightarrow> ('k \<times> 'v) list" where
  "put \<equiv> AList.update"

abbreviation del :: "'k \<Rightarrow> ('k \<times> 'v) list \<Rightarrow> ('k \<times> 'v) list" where
  "del \<equiv> AList.delete"

abbreviation keys_of :: "('k \<times> 'v) list \<Rightarrow> 'k set" where
  "keys_of m \<equiv> fst ` set m"

lemma gomap_Nil [simp, wf_intros]: "gomap []"
  by (simp add: gomap_def)

lemma gomap_put [simp, wf_intros]: "gomap m \<Longrightarrow> gomap (put k v m)"
  by (simp add: gomap_def distinct_update)

lemma gomap_del [simp, wf_intros]: "gomap m \<Longrightarrow> gomap (del k m)"
  by (simp add: gomap_def distinct_delete)

lemma gomap_map_snd [simp, wf_intros]: "gomap m \<Longrightarrow> gomap (map (\<lambda>(k, v). (k, f k v)) m)"
  by (simp add: gomap_def comp_def split_def)

lemma gomap_filter [wf_intros]: "gomap m \<Longrightarrow> gomap (filter P m)"
  by (simp add: gomap_def distinct_map_filter)

lemma map_of_put [gomap_simps]: "map_of (put k v m) = (map_of m)(k \<mapsto> v)"
  by (rule update_conv')

lemma map_of_del [gomap_simps]: "map_of (del k m) = (map_of m)(k := None)"
  by (rule delete_conv')

lemma keys_of_put [gomap_simps]: "keys_of (put k v m) = insert k (keys_of m)"
  by (simp add: dom_update)

lemma keys_of_del [gomap_simps]: "keys_of (del k m) = keys_of m - {k}"
  using delete_keys [of k m] by (metis list.set_map set_removeAll)

lemma gomap_in_set: "gomap m \<Longrightarrow> (k, v) \<in> set m \<longleftrightarrow> map_of m k = Some v"
  by (simp add: gomap_def)

lemma keys_of_dom: "k \<in> keys_of m \<longleftrightarrow> (\<exists>v. map_of m k = Some v)"
  by (metis map_of_eq_None_iff not_None_eq)

text \<open>Two Go maps with the same content are permutations of each other.\<close>

lemma gomap_same_mset:
  assumes "gomap a" and "gomap b" and "map_of a = map_of b"
  shows "mset a = mset b"
proof -
  have "set a = set b"
    using assms by (simp add: gomap_def map_of_inject_set)
  then show ?thesis
    using assms by (simp add: gomap_def set_eq_iff_mset_eq_distinct distinct_map)
qed

lemma map_of_map_entries:
  "map_of (map (\<lambda>(k, v). (k, f v)) m) k = map_option f (map_of m k)"
  by (induction m) auto

lemma map_of_filter_key [gomap_simps]:
  "map_of (filter (\<lambda>(k, _). P k) m) k = (if P k then map_of m k else None)"
  by (induction m) auto

section \<open>Sorting\<close>

text \<open>
  \<open>sort.Strings\<close> is \<open>sort\<close>. \<open>sort.Slice\<close> with a comparison of keys is not
  stable. Where the keys are distinct every sorting algorithm gives the same list
  (\<open>sort_key_unique\<close>), so it is \<open>sort_key\<close> there.
\<close>

abbreviation sortStrings :: "string list \<Rightarrow> string list" where
  "sortStrings \<equiv> sort"

lemma filter_key_replicate:
  "inj_on f (set xs) \<Longrightarrow> k \<in> set xs \<Longrightarrow>
   filter (\<lambda>x. f k = f x) xs = replicate (count (mset xs) k) k"
proof -
  assume inj: "inj_on f (set xs)" and k: "k \<in> set xs"
  have "filter (\<lambda>x. f k = f x) xs = filter (\<lambda>x. k = x) xs"
    using inj k by (intro filter_cong) (auto dest: inj_onD)
  also have "\<dots> = replicate (count (mset xs) k) k"
    by (induction xs) auto
  finally show ?thesis .
qed

lemma sort_key_unique:
  assumes "mset xs = mset ys" and "inj_on f (set xs)"
  shows "sort_key f xs = sort_key f ys"
proof (rule properties_for_sort_key)
  show "mset (sort_key f ys) = mset xs"
    by (simp add: assms(1))
  have sets: "set ys = set xs"
    using assms(1) by (metis set_mset_mset)
  show "filter (\<lambda>x. f k = f x) (sort_key f ys) = filter (\<lambda>x. f k = f x) xs"
    if "k \<in> set (sort_key f ys)" for k
    using that assms sets
    by (simp add: filter_key_replicate)
  show "sorted (map f (sort_key f ys))"
    by simp
qed

lemma sort_unique: "mset xs = mset ys \<Longrightarrow> sort xs = sort ys"
  by (rule sort_key_unique) simp_all

lemma sort_distinct_set: "distinct xs \<Longrightarrow> sort xs = sorted_list_of_set (set xs)"
  by (simp add: sorted_list_of_set_sort_remdups distinct_remdups_id)

lemma sorted_distinct_set: "sorted xs \<Longrightarrow> distinct xs \<Longrightarrow> sorted_list_of_set (set xs) = xs"
  by (rule sorted_distinct_set_unique) simp_all

end
