(* ===== verification/Source.thy ===== *)
theory Source
  imports Prelude
begin

text \<open>
  Package \<open>internal/source\<close>: the names of the built-in sources, the membership
  record every source emits, and the contract between a source and the syncer.
\<close>

section \<open>Names and records\<close>

definition NameProtocolGuild :: string where
  "NameProtocolGuild = ''protocol-guild''"

definition NameGitHubOrg :: string where
  "NameGitHubOrg = ''github-org''"

definition NameManual :: string where
  "NameManual = ''manual''"

record membership =
  ms_Handle :: string
  ms_Team :: string
  ms_Source :: string
  ms_Org :: string
  ms_Name :: string

lemmas source_names = NameProtocolGuild_def NameGitHubOrg_def NameManual_def

section \<open>The contract of a source\<close>

text \<open>
  What a \<open>Source\<close> promises to the syncer: every row carries the source's own name
  and a non-empty handle, and a row carries an organisation only if the source is the
  organisation source. \<open>fetch env\<close> is one call of \<open>Fetch\<close>; \<open>env\<close> is
  whatever the upstream system answers at that moment.
\<close>

definition well_formed_row :: "string \<Rightarrow> membership \<Rightarrow> bool" where
  "well_formed_row name m \<longleftrightarrow>
     ms_Source m = name \<and> ms_Handle m \<noteq> [] \<and> (ms_Org m \<noteq> [] \<longrightarrow> name = NameGitHubOrg)"

locale membership_source =
  fixes name :: string
    and fetch :: "'env \<Rightarrow> error + membership list"
  assumes fetch_rows: "fetch env = Inr rows \<Longrightarrow> m \<in> set rows \<Longrightarrow> well_formed_row name m"
begin

lemma fetch_source_name: "fetch env = Inr rows \<Longrightarrow> ms_Source ` set rows \<subseteq> {name}"
  using fetch_rows by (auto simp: well_formed_row_def)

lemma fetch_org_rows:
  "fetch env = Inr rows \<Longrightarrow> m \<in> set rows \<Longrightarrow> ms_Org m \<noteq> [] \<Longrightarrow> ms_Source m = NameGitHubOrg"
  using fetch_rows by (auto simp: well_formed_row_def)

end

end
