(* ===== verification/Index.thy ===== *)
theory Index
  imports Source
begin

text \<open>
  Package \<open>internal/index\<close>, file \<open>index.go\<close>: the superset index built from
  membership rows, its queries, and the atomically swapped \<open>Store\<close>.
  \<open>find_member\<close> and \<open>member_spec\<close> are the abstract view the code is proved
  against: for a team and a lowercased handle, what the rows say.
\<close>

section \<open>Data\<close>

record member =
  mb_Handle :: string
  mb_Name :: string
  mb_Sources :: "string list"
  mb_Orgs :: "string list"

record team =
  tm_Slug :: string
  tm_Members :: "(string \<times> member) list"

record index =
  ix_GeneratedAt :: time
  ix_Teams :: "(string \<times> team) list"

record user =
  us_Handle :: string
  us_Name :: string
  us_Teams :: "string list"
  us_Sources :: "string list"
  us_Orgs :: "string list"

section \<open>Building an index\<close>

definition appendUnique :: "string list \<Rightarrow> string \<Rightarrow> string list" where
  "appendUnique s v = (if v \<in> set s then s else s @ [v])"

text \<open>The body of the loop of \<open>Build\<close> after the team has been found: one member.\<close>

definition merge_row :: "member option \<Rightarrow> membership \<Rightarrow> member" where
  "merge_row found m =
     (let member = (case found of
            None \<Rightarrow> \<lparr>mb_Handle = ms_Handle m, mb_Name = [], mb_Sources = [], mb_Orgs = []\<rparr>
          | Some x \<Rightarrow> x);
        member = (if mb_Name member = [] \<and> ms_Name m \<noteq> []
                  then member\<lparr>mb_Name := ms_Name m\<rparr> else member);
        member = member\<lparr>mb_Sources := appendUnique (mb_Sources member) (ms_Source m)\<rparr>
      in if ms_Org m \<noteq> []
         then member\<lparr>mb_Orgs := appendUnique (mb_Orgs member) (ms_Org m)\<rparr> else member)"

definition build_step :: "index \<Rightarrow> membership \<Rightarrow> index" where
  "build_step idx m =
     (if ms_Handle m = [] \<or> ms_Team m = [] then idx
      else
        let team = (case map_of (ix_Teams idx) (ms_Team m) of
               None \<Rightarrow> \<lparr>tm_Slug = ms_Team m, tm_Members = []\<rparr>
             | Some t \<Rightarrow> t);
            key = toLower (ms_Handle m);
            member = merge_row (map_of (tm_Members team) key) m;
            team = team\<lparr>tm_Members := put key member (tm_Members team)\<rparr>
        in idx\<lparr>ix_Teams := put (ms_Team m) team (ix_Teams idx)\<rparr>)"

definition sort_member :: "member \<Rightarrow> member" where
  "sort_member m = m\<lparr>mb_Sources := sortStrings (mb_Sources m), mb_Orgs := sortStrings (mb_Orgs m)\<rparr>"

definition sortProvenance :: "index \<Rightarrow> index" where
  "sortProvenance idx =
     idx\<lparr>ix_Teams := map (\<lambda>(slug, t).
       (slug, t\<lparr>tm_Members := map (\<lambda>(key, m). (key, sort_member m)) (tm_Members t)\<rparr>)) (ix_Teams idx)\<rparr>"

definition Build :: "time \<Rightarrow> membership list \<Rightarrow> index" where
  "Build generatedAt memberships =
     sortProvenance (foldl build_step \<lparr>ix_GeneratedAt = generatedAt, ix_Teams = []\<rparr> memberships)"

section \<open>Queries\<close>

definition TeamSlugs :: "index \<Rightarrow> string list" where
  "TeamSlugs i = sortStrings (map fst (ix_Teams i))"

definition Members :: "index \<Rightarrow> string \<Rightarrow> string \<Rightarrow> member list" where
  "Members i team sourceFilter =
     (case map_of (ix_Teams i) team of
        None \<Rightarrow> []
      | Some t \<Rightarrow>
          sort_key (\<lambda>m. toLower (mb_Handle m))
            (filter (\<lambda>m. \<not> (sourceFilter \<noteq> [] \<and> sourceFilter \<notin> set (mb_Sources m)))
              (map snd (tm_Members t))))"

definition member_row :: "string \<Rightarrow> member \<Rightarrow> string \<Rightarrow> string \<Rightarrow> membership" where
  "member_row slug m src org =
     \<lparr>ms_Handle = mb_Handle m, ms_Team = slug, ms_Source = src, ms_Org = org, ms_Name = mb_Name m\<rparr>"

definition source_rows :: "string \<Rightarrow> member \<Rightarrow> string \<Rightarrow> membership list" where
  "source_rows slug m src =
     (if src = NameGitHubOrg \<and> mb_Orgs m \<noteq> []
      then map (\<lambda>org. member_row slug m src org) (mb_Orgs m)
      else [member_row slug m src []])"

definition member_rows :: "string \<Rightarrow> member \<Rightarrow> membership list" where
  "member_rows slug m = concat (map (source_rows slug m) (mb_Sources m))"

definition Memberships :: "index \<Rightarrow> membership list" where
  "Memberships i =
     concat (map (\<lambda>slug. concat (map (member_rows slug) (Members i slug []))) (TeamSlugs i))"

definition merge_user :: "string \<Rightarrow> user option \<Rightarrow> member \<Rightarrow> user" where
  "merge_user slug found m =
     (let u = (case found of
            None \<Rightarrow> \<lparr>us_Handle = mb_Handle m, us_Name = mb_Name m, us_Teams = [],
                     us_Sources = [], us_Orgs = []\<rparr>
          | Some x \<Rightarrow> x);
        u = (if us_Name u = [] \<and> mb_Name m \<noteq> [] then u\<lparr>us_Name := mb_Name m\<rparr> else u)
      in u\<lparr>us_Teams := appendUnique (us_Teams u) slug,
           us_Sources := foldl appendUnique (us_Sources u) (mb_Sources m),
           us_Orgs := foldl appendUnique (us_Orgs u) (mb_Orgs m)\<rparr>)"

definition users_team :: "index \<Rightarrow> (string \<times> user) list \<Rightarrow> string \<Rightarrow> (string \<times> user) list" where
  "users_team i agg slug =
     (case map_of (ix_Teams i) slug of
        None \<Rightarrow> agg
      | Some t \<Rightarrow>
          foldl (\<lambda>agg (key, m). put key (merge_user slug (map_of agg key) m) agg) agg (tm_Members t))"

definition sort_user :: "user \<Rightarrow> user" where
  "sort_user u = u\<lparr>us_Teams := sortStrings (us_Teams u), us_Sources := sortStrings (us_Sources u),
                  us_Orgs := sortStrings (us_Orgs u)\<rparr>"

definition Users :: "index \<Rightarrow> user list" where
  "Users i =
     (let agg = foldl (users_team i) [] (TeamSlugs i)
      in sort_key (\<lambda>u. toLower (us_Handle u)) (map (\<lambda>(_, u). sort_user u) agg))"

definition Lookup :: "index \<Rightarrow> string \<Rightarrow> (string \<times> member) list" where
  "Lookup i handle =
     (let key = toLower handle
      in List.map_filter (\<lambda>(slug, t). map_option (Pair slug) (map_of (tm_Members t) key)) (ix_Teams i))"

text \<open>The \<open>Store\<close>: the published index, \<open>None\<close> before the first \<open>Set\<close>.\<close>

record store =
  st_current :: "index option"

definition NewStore :: store where
  "NewStore = \<lparr>st_current = None\<rparr>"

definition Store_Get :: "store \<Rightarrow> index option" where
  "Store_Get s = st_current s"

definition Store_Set :: "store \<Rightarrow> index \<Rightarrow> store" where
  "Store_Set s idx = s\<lparr>st_current := Some idx\<rparr>"

lemma Store_Get_simps [simp]:
  "Store_Get NewStore = None" "Store_Get (Store_Set s idx) = Some idx"
  by (simp_all add: Store_Get_def NewStore_def Store_Set_def)

section \<open>The abstract view\<close>

definition find_member :: "index \<Rightarrow> string \<Rightarrow> string \<Rightarrow> member option" where
  "find_member i slug key =
     (case map_of (ix_Teams i) slug of None \<Rightarrow> None | Some t \<Rightarrow> map_of (tm_Members t) key)"

definition rows_for :: "string \<Rightarrow> string \<Rightarrow> membership list \<Rightarrow> membership list" where
  "rows_for slug key rows =
     filter (\<lambda>m. ms_Handle m \<noteq> [] \<and> ms_Team m \<noteq> [] \<and> ms_Team m = slug \<and> toLower (ms_Handle m) = key) rows"

fun first_nonempty :: "string list \<Rightarrow> string" where
  "first_nonempty [] = []"
| "first_nonempty (s # ss) = (if s = [] then first_nonempty ss else s)"

definition member_spec :: "membership list \<Rightarrow> member option" where
  "member_spec rows =
     (case rows of
        [] \<Rightarrow> None
      | r # _ \<Rightarrow> Some \<lparr>mb_Handle = ms_Handle r,
                       mb_Name = first_nonempty (map ms_Name rows),
                       mb_Sources = sorted_list_of_set (ms_Source ` set rows),
                       mb_Orgs = sorted_list_of_set (ms_Org ` set rows - {[]})\<rparr>)"

section \<open>Build: what the index says about a team and a handle\<close>

lemma set_appendUnique [simp]: "set (appendUnique s v) = insert v (set s)"
  by (auto simp: appendUnique_def)

lemma distinct_appendUnique [simp]: "distinct s \<Longrightarrow> distinct (appendUnique s v)"
  by (simp add: appendUnique_def)

lemma appendUnique_neq_Nil [simp]: "appendUnique s v \<noteq> []"
  by (auto simp: appendUnique_def)

lemma set_fold_appendUnique [simp]: "set (foldl appendUnique s vs) = set s \<union> set vs"
  by (induction vs arbitrary: s) auto

lemma distinct_fold_appendUnique [simp]: "distinct s \<Longrightarrow> distinct (foldl appendUnique s vs)"
  by (induction vs arbitrary: s) auto

lemma fold_appendUnique_snoc: "foldl appendUnique s (vs @ [v]) = appendUnique (foldl appendUnique s vs) v"
  by simp

definition relevant :: "membership \<Rightarrow> string \<Rightarrow> string \<Rightarrow> bool" where
  "relevant m slug key \<longleftrightarrow>
     ms_Handle m \<noteq> [] \<and> ms_Team m \<noteq> [] \<and> ms_Team m = slug \<and> toLower (ms_Handle m) = key"

lemma rows_for_relevant: "rows_for slug key rows = filter (\<lambda>m. relevant m slug key) rows"
  by (simp add: rows_for_def relevant_def)

lemma find_member_build_step:
  "find_member (build_step idx m) slug key =
     (if relevant m slug key then Some (merge_row (find_member idx slug key) m)
      else find_member idx slug key)"
  by (auto simp: find_member_def build_step_def relevant_def Let_def gomap_simps split: option.splits)

lemma find_member_fold:
  "find_member (foldl build_step idx rows) slug key =
     foldl (\<lambda>found m. Some (merge_row found m)) (find_member idx slug key) (rows_for slug key rows)"
  by (induction rows arbitrary: idx) (simp_all add: rows_for_relevant find_member_build_step)

lemma find_member_sortProvenance:
  "find_member (sortProvenance idx) slug key = map_option sort_member (find_member idx slug key)"
proof -
  have "map_of (ix_Teams (sortProvenance idx)) slug =
      map_option (\<lambda>t. t\<lparr>tm_Members := map (\<lambda>(key, m). (key, sort_member m)) (tm_Members t)\<rparr>)
        (map_of (ix_Teams idx) slug)"
    by (simp add: sortProvenance_def map_of_map_entries)
  then show ?thesis
    by (simp add: find_member_def map_of_map_entries split: option.splits)
qed

lemma first_nonempty_append: "first_nonempty (as @ bs) = (if first_nonempty as = [] then first_nonempty bs else first_nonempty as)"
  by (induction as) auto

lemma merge_row_None:
  "merge_row None m =
     \<lparr>mb_Handle = ms_Handle m, mb_Name = ms_Name m, mb_Sources = [ms_Source m],
      mb_Orgs = (if ms_Org m = [] then [] else [ms_Org m])\<rparr>"
  by (simp add: merge_row_def appendUnique_def Let_def)

lemma merge_row_Some_simps [simp]:
  "mb_Handle (merge_row (Some x) m) = mb_Handle x"
  "mb_Name (merge_row (Some x) m) = (if mb_Name x = [] then ms_Name m else mb_Name x)"
  "mb_Sources (merge_row (Some x) m) = appendUnique (mb_Sources x) (ms_Source m)"
  "mb_Orgs (merge_row (Some x) m) = (if ms_Org m = [] then mb_Orgs x else appendUnique (mb_Orgs x) (ms_Org m))"
  by (simp_all add: merge_row_def Let_def)

text \<open>The member that the rows of one team and handle build up, before the sorting.\<close>

definition member_of_rows :: "membership list \<Rightarrow> member" where
  "member_of_rows rows =
     \<lparr>mb_Handle = ms_Handle (hd rows), mb_Name = first_nonempty (map ms_Name rows),
      mb_Sources = foldl appendUnique [] (map ms_Source rows),
      mb_Orgs = foldl appendUnique [] (filter (\<lambda>org. org \<noteq> []) (map ms_Org rows))\<rparr>"

lemma member_of_rows_snoc:
  "rows \<noteq> [] \<Longrightarrow> merge_row (Some (member_of_rows rows)) r = member_of_rows (rows @ [r])"
  by (rule member.equality) (simp_all add: member_of_rows_def first_nonempty_append)

lemma fold_merge_row:
  "rows \<noteq> [] \<Longrightarrow>
   foldl (\<lambda>found m. Some (merge_row found m)) None rows = Some (member_of_rows rows)"
proof (induction rows rule: rev_induct)
  case Nil
  then show ?case by simp
next
  case (snoc r rows)
  show ?case
  proof (cases "rows = []")
    case True
    then show ?thesis
      by (simp add: merge_row_None member_of_rows_def appendUnique_def)
  next
    case False
    with snoc.IH show ?thesis by (simp add: member_of_rows_snoc)
  qed
qed

lemma sort_member_of_rows:
  "rows \<noteq> [] \<Longrightarrow> Some (sort_member (member_of_rows rows)) = member_spec rows"
proof -
  assume "rows \<noteq> []"
  then obtain r rs where rows: "rows = r # rs" by (cases rows) auto
  have "set (filter (\<lambda>org. org \<noteq> []) (map ms_Org rows)) = ms_Org ` set rows - {[]}"
    by auto
  then show ?thesis
    unfolding rows
    by (simp add: sort_member_def member_of_rows_def member_spec_def sort_distinct_set del: foldl_Cons)
qed

lemma find_member_empty [simp]: "find_member \<lparr>ix_GeneratedAt = t, ix_Teams = []\<rparr> slug key = None"
  by (simp add: find_member_def)

lemma Build_find_member:
  "find_member (Build t rows) slug key = member_spec (rows_for slug key rows)"
  by (cases "rows_for slug key rows = []")
    (simp_all add: Build_def find_member_sortProvenance find_member_fold fold_merge_row
      sort_member_of_rows [symmetric], simp add: member_spec_def)

section \<open>Well-formed indexes\<close>

text \<open>
  What every index built by \<open>Build\<close> satisfies: slugs agree with their keys, no team is
  empty, a member is stored under its lowercased handle, and its provenance is sorted and
  free of duplicates.
\<close>

definition member_wf :: "string \<Rightarrow> member \<Rightarrow> bool" where
  "member_wf key m \<longleftrightarrow>
     key = toLower (mb_Handle m) \<and> mb_Handle m \<noteq> [] \<and>
     mb_Sources m \<noteq> [] \<and> sorted (mb_Sources m) \<and> distinct (mb_Sources m) \<and>
     sorted (mb_Orgs m) \<and> distinct (mb_Orgs m) \<and> [] \<notin> set (mb_Orgs m)"

definition team_shape :: "string \<times> team \<Rightarrow> bool" where
  "team_shape p \<longleftrightarrow>
     (case p of (slug, t) \<Rightarrow> tm_Slug t = slug \<and> slug \<noteq> [] \<and> tm_Members t \<noteq> [] \<and> gomap (tm_Members t))"

definition index_shape :: "index \<Rightarrow> bool" where
  "index_shape i \<longleftrightarrow> gomap (ix_Teams i) \<and> list_all team_shape (ix_Teams i)"

definition index_wf :: "index \<Rightarrow> bool" where
  "index_wf i \<longleftrightarrow>
     index_shape i \<and> list_all (\<lambda>(slug, t). list_all (\<lambda>(key, m). member_wf key m) (tm_Members t)) (ix_Teams i)"

lemma index_shape_team:
  "index_shape i \<Longrightarrow> map_of (ix_Teams i) slug = Some t \<Longrightarrow> team_shape (slug, t)"
  by (auto simp: index_shape_def list_all_iff dest: map_of_SomeD)

lemma index_shapeI:
  assumes "gomap (ix_Teams i)"
    and "\<And>slug t. map_of (ix_Teams i) slug = Some t \<Longrightarrow> team_shape (slug, t)"
  shows "index_shape i"
  using assms by (auto simp: index_shape_def list_all_iff gomap_in_set)

lemma list_all_gomap:
  "gomap m \<Longrightarrow> list_all (\<lambda>(k, v). P k v) m \<longleftrightarrow> (\<forall>k v. map_of m k = Some v \<longrightarrow> P k v)"
  by (auto simp: list_all_iff gomap_in_set [symmetric])

lemma index_wf_find:
  assumes "index_shape i"
  shows "index_wf i \<longleftrightarrow> (\<forall>slug key m. find_member i slug key = Some m \<longrightarrow> member_wf key m)"
proof -
  have teams: "gomap (ix_Teams i)"
    using assms by (simp add: index_shape_def)
  have members: "gomap (tm_Members t)" if "map_of (ix_Teams i) slug = Some t" for slug t
    using index_shape_team [OF assms that] by (simp add: team_shape_def)
  have "index_wf i \<longleftrightarrow> (\<forall>slug t. map_of (ix_Teams i) slug = Some t \<longrightarrow>
      (\<forall>key m. map_of (tm_Members t) key = Some m \<longrightarrow> member_wf key m))"
    by (simp add: index_wf_def assms list_all_gomap [OF teams] list_all_gomap [OF members] cong: imp_cong)
  then show ?thesis
    by (auto simp: find_member_def split: option.splits)
qed

lemma index_wf_shape [dest]: "index_wf i \<Longrightarrow> index_shape i"
  by (simp add: index_wf_def)

lemma index_wf_member: "index_wf i \<Longrightarrow> find_member i slug key = Some m \<Longrightarrow> member_wf key m"
  using index_wf_find by blast

lemma build_step_shape: "index_shape i \<Longrightarrow> index_shape (build_step i m)"
proof (rule index_shapeI)
  assume i: "index_shape i"
  then show "gomap (ix_Teams (build_step i m))"
    by (simp add: build_step_def Let_def index_shape_def)
  show "team_shape (slug, t)" if "map_of (ix_Teams (build_step i m)) slug = Some t" for slug t
  proof (cases "map_of (ix_Teams i) (ms_Team m)")
    case None
    with that show ?thesis
      by (auto simp: build_step_def Let_def gomap_simps team_shape_def gomap_def
          split: if_splits dest!: index_shape_team [OF i])
  next
    case (Some u)
    have "gomap (tm_Members u)" and "tm_Slug u = ms_Team m"
      using index_shape_team [OF i Some] by (simp_all add: team_shape_def)
    with Some that show ?thesis
      by (auto simp: build_step_def Let_def gomap_simps team_shape_def
          split: if_splits dest!: index_shape_team [OF i])
  qed
qed

lemma fold_build_shape: "index_shape i \<Longrightarrow> index_shape (foldl build_step i rows)"
  by (induction rows arbitrary: i) (simp_all add: build_step_shape)

lemma sortProvenance_shape: "index_shape i \<Longrightarrow> index_shape (sortProvenance i)"
  by (auto simp: index_shape_def sortProvenance_def team_shape_def list_all_iff)

lemma index_shape_empty [simp]: "index_shape \<lparr>ix_GeneratedAt = t, ix_Teams = []\<rparr>"
  by (simp add: index_shape_def)

lemma member_spec_wf:
  assumes "member_spec (rows_for slug key rows) = Some m"
  shows "member_wf key m"
proof -
  obtain r rs where rows: "rows_for slug key rows = r # rs"
    using assms by (cases "rows_for slug key rows") (auto simp: member_spec_def)
  then have "r \<in> set (rows_for slug key rows)" by simp
  then have r: "toLower (ms_Handle r) = key" "ms_Handle r \<noteq> []"
    by (auto simp: rows_for_def)
  with assms rows show ?thesis
    by (auto simp: member_spec_def member_wf_def simp del: sorted_list_of_set_insert_remove)
qed

lemma Build_index_shape: "index_shape (Build t rows)"
  by (simp add: Build_def sortProvenance_shape fold_build_shape)

lemma Build_index_wf: "index_wf (Build t rows)"
  using index_wf_find [OF Build_index_shape] Build_find_member member_spec_wf by metis

text \<open>
  Two indexes are the same when they were generated at the same time and say the same about
  every team and handle. The order in which their maps are iterated may differ.
\<close>

definition index_eq :: "index \<Rightarrow> index \<Rightarrow> bool" where
  "index_eq i j \<longleftrightarrow> ix_GeneratedAt i = ix_GeneratedAt j \<and> find_member i = find_member j"

definition has_team :: "index \<Rightarrow> string \<Rightarrow> bool" where
  "has_team i slug \<longleftrightarrow> (\<exists>key m. find_member i slug key = Some m)"

lemma slug_has_team:
  assumes "index_shape i"
  shows "slug \<in> keys_of (ix_Teams i) \<longleftrightarrow> has_team i slug"
proof
  assume "slug \<in> keys_of (ix_Teams i)"
  then obtain t where t: "map_of (ix_Teams i) slug = Some t"
    by (auto simp: keys_of_dom)
  with assms have "tm_Members t \<noteq> []" and "gomap (tm_Members t)"
    using index_shape_team [OF assms t] by (auto simp: team_shape_def)
  then obtain key m where "map_of (tm_Members t) key = Some m"
    by (metis gomap_in_set list.set_intros(1) neq_Nil_conv surj_pair)
  with t show "has_team i slug"
    by (auto simp: has_team_def find_member_def)
next
  assume "has_team i slug"
  then show "slug \<in> keys_of (ix_Teams i)"
    by (auto simp: has_team_def find_member_def keys_of_dom split: option.splits)
qed

lemma TeamSlugs_spec:
  "index_shape i \<Longrightarrow> TeamSlugs i = sorted_list_of_set {slug. has_team i slug}"
proof -
  assume i: "index_shape i"
  then have "TeamSlugs i = sorted_list_of_set (set (map fst (ix_Teams i)))"
    by (simp add: TeamSlugs_def sort_distinct_set index_shape_def gomap_def)
  also have "set (map fst (ix_Teams i)) = {slug. has_team i slug}"
    using slug_has_team [OF i] by auto
  finally show ?thesis .
qed

lemma has_team_finite: "index_shape i \<Longrightarrow> finite {slug. has_team i slug}"
  using slug_has_team [of i] by (metis (mono_tags) finite_imageI finite_set mem_Collect_eq rev_finite_subset subsetI)

lemma set_TeamSlugs: "index_shape i \<Longrightarrow> slug \<in> set (TeamSlugs i) \<longleftrightarrow> has_team i slug"
  by (simp add: TeamSlugs_spec has_team_finite)

lemma distinct_TeamSlugs [simp]: "index_shape i \<Longrightarrow> distinct (TeamSlugs i)"
  by (simp add: TeamSlugs_def index_shape_def gomap_def)

lemma index_eq_has_team: "index_eq i j \<Longrightarrow> has_team i slug = has_team j slug"
  by (simp add: index_eq_def has_team_def)

lemma index_eq_TeamSlugs:
  "index_shape i \<Longrightarrow> index_shape j \<Longrightarrow> index_eq i j \<Longrightarrow> TeamSlugs i = TeamSlugs j"
  by (simp add: TeamSlugs_spec index_eq_has_team)

end
