(* ===== verification/IndexQueries.thy ===== *)
theory IndexQueries
  imports Index
begin

text \<open>
  The queries of \<open>internal/index\<close> proved against the abstract view: the members of a
  team, the flattening back into rows and its round trip, the people-centric view, the reverse
  lookup. Each is shown to depend on the content of the maps only, never on the order in which
  they are iterated.
\<close>

section \<open>Members of a team\<close>

text \<open>The members of a team, by the abstract view.\<close>

definition team_keys :: "index \<Rightarrow> string \<Rightarrow> string set" where
  "team_keys i slug = dom (find_member i slug)"

lemma in_team_keys: "key \<in> team_keys i slug \<longleftrightarrow> (\<exists>m. find_member i slug key = Some m)"
  by (auto simp: team_keys_def)

lemma finite_team_keys [simp]: "finite (team_keys i slug)"
  by (cases "map_of (ix_Teams i) slug")
    (simp_all add: team_keys_def find_member_def [abs_def] finite_dom_map_of)

definition matching_keys :: "index \<Rightarrow> string \<Rightarrow> string \<Rightarrow> string set" where
  "matching_keys i slug src =
     {key \<in> team_keys i slug. src \<noteq> [] \<longrightarrow> src \<in> set (mb_Sources (the (find_member i slug key)))}"

lemma in_matching_keys:
  "key \<in> matching_keys i slug src \<longleftrightarrow>
     (\<exists>m. find_member i slug key = Some m \<and> (src \<noteq> [] \<longrightarrow> src \<in> set (mb_Sources m)))"
  by (auto simp: matching_keys_def in_team_keys)

lemma finite_matching_keys [simp]: "finite (matching_keys i slug src)"
  by (simp add: matching_keys_def)

lemma matching_keys_all [simp]: "matching_keys i slug [] = team_keys i slug"
  by (simp add: matching_keys_def)

lemma index_wf_key: "index_wf i \<Longrightarrow> find_member i slug key = Some m \<Longrightarrow> toLower (mb_Handle m) = key"
  using index_wf_member by (auto simp: member_wf_def)

lemma sort_key_sorted_keys:
  assumes "distinct (map f xs)"
  shows "map f (sort_key f xs) = sorted_list_of_set (f ` set xs)"
proof -
  have "sorted_list_of_set (set (map f (sort_key f xs))) = map f (sort_key f xs)"
    using assms by (intro sorted_distinct_set) (simp_all add: distinct_map)
  then show ?thesis by simp
qed

lemma map_eq_via_key:
  assumes "map f xs = ks" and "\<And>x. x \<in> set xs \<Longrightarrow> g (f x) = x"
  shows "xs = map g ks"
  using assms(2) unfolding assms(1) [symmetric]
  by (simp add: map_idI)

lemma Members_spec:
  assumes "index_wf i"
  shows "Members i slug src =
     map (\<lambda>key. the (find_member i slug key)) (sorted_list_of_set (matching_keys i slug src))"
proof (cases "map_of (ix_Teams i) slug")
  case None
  then have "matching_keys i slug src = {}"
    by (auto simp: in_matching_keys find_member_def)
  with None show ?thesis by (simp add: Members_def)
next
  case (Some t)
  let ?key = "\<lambda>m. toLower (mb_Handle m)"
  let ?ok = "\<lambda>m. \<not> (src \<noteq> [] \<and> src \<notin> set (mb_Sources m))"
  let ?ms = "filter ?ok (map snd (tm_Members t))"
  have go: "gomap (tm_Members t)"
    using index_shape_team [OF index_wf_shape [OF assms] Some] by (simp add: team_shape_def)
  have find: "find_member i slug key = map_of (tm_Members t) key" for key
    by (simp add: find_member_def Some)
  have key: "?key m = key \<and> find_member i slug key = Some m" if "(key, m) \<in> set (tm_Members t)" for key m
    using that index_wf_member [OF assms, of slug key m] go
    by (simp add: find gomap_in_set member_wf_def)
  then have "map ?key (map snd (tm_Members t)) = map fst (tm_Members t)"
    by auto
  then have dist: "distinct (map ?key ?ms)"
    using go by (metis gomap_def distinct_map_filter)
  have keys: "?key ` set ?ms = matching_keys i slug src"
  proof (intro set_eqI iffI)
    fix k
    assume "k \<in> ?key ` set ?ms"
    then show "k \<in> matching_keys i slug src" using key by (auto simp: in_matching_keys)
  next
    fix k
    assume "k \<in> matching_keys i slug src"
    then obtain m where m: "find_member i slug k = Some m" "src \<noteq> [] \<longrightarrow> src \<in> set (mb_Sources m)"
      by (auto simp: in_matching_keys)
    then have "(k, m) \<in> set (tm_Members t)"
      by (simp add: find gomap_in_set [OF go])
    with m show "k \<in> ?key ` set ?ms"
      using key by (intro image_eqI [where x = m]) force+
  qed
  have "sort_key ?key ?ms = map (\<lambda>key. the (find_member i slug key)) (sorted_list_of_set (?key ` set ?ms))"
    by (rule map_eq_via_key [OF sort_key_sorted_keys [OF dist]]) (auto dest: key)
  then show ?thesis
    unfolding keys by (simp add: Members_def Some)
qed

lemma index_eq_Members:
  "index_wf i \<Longrightarrow> index_wf j \<Longrightarrow> index_eq i j \<Longrightarrow> Members i slug src = Members j slug src"
  by (simp add: Members_spec index_eq_def matching_keys_def team_keys_def)

lemma set_Members:
  assumes "index_wf i"
  shows "m \<in> set (Members i slug src) \<longleftrightarrow>
     find_member i slug (toLower (mb_Handle m)) = Some m \<and> (src \<noteq> [] \<longrightarrow> src \<in> set (mb_Sources m))"
proof -
  have "m \<in> set (Members i slug src) \<longleftrightarrow> (\<exists>key\<in>matching_keys i slug src. m = the (find_member i slug key))"
    by (auto simp: Members_spec [OF assms])
  also have "\<dots> \<longleftrightarrow> (\<exists>key. find_member i slug key = Some m \<and> (src \<noteq> [] \<longrightarrow> src \<in> set (mb_Sources m)))"
    by (metis in_matching_keys option.sel)
  finally show ?thesis
    using index_wf_key [OF assms] by blast
qed

lemma Members_keys:
  assumes "index_wf i"
  shows "map (\<lambda>m. toLower (mb_Handle m)) (Members i slug src) =
    sorted_list_of_set (matching_keys i slug src)"
proof -
  have "toLower (mb_Handle (the (find_member i slug key))) = key"
    if "key \<in> matching_keys i slug src" for key
    using that index_wf_key [OF assms] by (auto simp: in_matching_keys)
  then show ?thesis
    by (simp add: Members_spec [OF assms]) (rule map_idI, simp)
qed

lemma filter_Members_key:
  assumes "index_wf i"
  shows "filter (\<lambda>m. toLower (mb_Handle m) = key) (Members i slug []) =
    (case find_member i slug key of None \<Rightarrow> [] | Some m \<Rightarrow> [m])"
proof -
  have dist: "distinct (map (\<lambda>m. toLower (mb_Handle m)) (Members i slug []))"
    by (simp add: Members_keys [OF assms])
  show ?thesis
  proof (cases "find_member i slug key")
    case None
    then show ?thesis
      by (auto simp: filter_empty_conv set_Members [OF assms])
  next
    case (Some m)
    then have k: "toLower (mb_Handle m) = key"
      using index_wf_member [OF assms Some] by (simp add: member_wf_def)
    with Some have "m \<in> set (Members i slug [])"
      by (simp add: set_Members [OF assms])
    then obtain xs ys where split: "Members i slug [] = xs @ m # ys"
      by (auto simp: in_set_conv_decomp)
    have "key \<notin> (\<lambda>m. toLower (mb_Handle m)) ` set xs"
      and "key \<notin> (\<lambda>m. toLower (mb_Handle m)) ` set ys"
      using dist k by (simp_all add: split)
    then have "filter (\<lambda>m. toLower (mb_Handle m) = key) xs = []"
      and "filter (\<lambda>m. toLower (mb_Handle m) = key) ys = []"
      by (auto simp: filter_empty_conv image_iff)
    then show ?thesis
      by (simp add: Some split k)
  qed
qed

section \<open>Flattening and rebuilding\<close>

definition orgs_attributed :: "member \<Rightarrow> bool" where
  "orgs_attributed m \<longleftrightarrow> (mb_Orgs m \<noteq> [] \<longrightarrow> NameGitHubOrg \<in> set (mb_Sources m))"

definition index_attributed :: "index \<Rightarrow> bool" where
  "index_attributed i \<longleftrightarrow> list_all (\<lambda>(_, t). list_all (\<lambda>(_, m). orgs_attributed m) (tm_Members t)) (ix_Teams i)"

lemma index_attributed_find:
  "index_attributed i \<Longrightarrow> find_member i slug key = Some m \<Longrightarrow> orgs_attributed m"
  by (fastforce simp: index_attributed_def find_member_def list_all_iff split: option.splits
      dest: map_of_SomeD)

lemma member_row_simps [simp]:
  "ms_Handle (member_row slug m src org) = mb_Handle m"
  "ms_Team (member_row slug m src org) = slug"
  "ms_Source (member_row slug m src org) = src"
  "ms_Org (member_row slug m src org) = org"
  "ms_Name (member_row slug m src org) = mb_Name m"
  by (simp_all add: member_row_def)

lemma source_rows_fields:
  "r \<in> set (source_rows slug m src) \<Longrightarrow>
   ms_Handle r = mb_Handle m \<and> ms_Team r = slug \<and> ms_Name r = mb_Name m"
  by (auto simp: source_rows_def split: if_splits)

lemma member_rows_fields:
  "r \<in> set (member_rows slug m) \<Longrightarrow>
   ms_Handle r = mb_Handle m \<and> ms_Team r = slug \<and> ms_Name r = mb_Name m"
  using source_rows_fields by (fastforce simp: member_rows_def)

lemma source_rows_source: "ms_Source ` set (source_rows slug m src) = {src}"
  by (cases "mb_Orgs m") (auto simp: source_rows_def)

lemma source_rows_org:
  "ms_Org ` set (source_rows slug m src) =
     (if src = NameGitHubOrg \<and> mb_Orgs m \<noteq> [] then set (mb_Orgs m) else {[]})"
  by (auto simp: source_rows_def image_iff)

lemma member_rows_sources: "ms_Source ` set (member_rows slug m) = set (mb_Sources m)"
  by (simp add: member_rows_def image_UN source_rows_source)

lemma member_rows_orgs:
  assumes "orgs_attributed m" and "[] \<notin> set (mb_Orgs m)"
  shows "ms_Org ` set (member_rows slug m) - {[]} = set (mb_Orgs m)"
  using assms
  by (auto simp: member_rows_def image_UN source_rows_org orgs_attributed_def split: if_splits)

lemma first_nonempty_const: "ss \<noteq> [] \<Longrightarrow> set ss \<subseteq> {s} \<Longrightarrow> first_nonempty ss = s"
proof (induction ss)
  case Nil
  then show ?case by simp
next
  case (Cons a ss)
  then show ?case by (cases "ss = []") simp_all
qed

lemma member_spec_member_rows:
  assumes "member_wf key m" and "orgs_attributed m"
  shows "member_spec (member_rows slug m) = Some m"
proof -
  have "member_rows slug m \<noteq> []"
    using assms(1) member_rows_sources [of slug m] by (auto simp: member_wf_def)
  then obtain r rs where rows: "member_rows slug m = r # rs"
    by (cases "member_rows slug m") auto
  have "ms_Handle r = mb_Handle m"
    using member_rows_fields [of r slug m] rows by simp
  moreover have "set (map ms_Name (member_rows slug m)) \<subseteq> {mb_Name m}"
    by (auto dest: member_rows_fields)
  then have "first_nonempty (map ms_Name (member_rows slug m)) = mb_Name m"
    by (rule first_nonempty_const [rotated]) (simp add: rows)
  moreover have "sorted_list_of_set (ms_Source ` set (member_rows slug m)) = mb_Sources m"
    and "sorted_list_of_set (ms_Org ` set (member_rows slug m) - {[]}) = mb_Orgs m"
    using assms by (simp_all add: member_rows_sources member_rows_orgs member_wf_def sorted_distinct_set)
  ultimately show ?thesis
    by (simp add: member_spec_def rows)
qed


lemma rows_for_concat:
  "rows_for slug key (concat xss) = concat (map (rows_for slug key) xss)"
  by (simp add: rows_for_def [abs_def] filter_concat)

lemma concat_map_single:
  "distinct xs \<Longrightarrow> concat (map (\<lambda>x. if x = a then f x else []) xs) = (if a \<in> set xs then f a else [])"
  by (induction xs) auto

lemma concat_map_filter:
  "concat (map (\<lambda>x. if P x then f x else []) xs) = concat (map f (filter P xs))"
  by (induction xs) auto

lemma rows_for_member_rows:
  "mb_Handle m \<noteq> [] \<Longrightarrow>
   rows_for slug key (member_rows slug' m) =
     (if slug' \<noteq> [] \<and> slug' = slug \<and> toLower (mb_Handle m) = key then member_rows slug' m else [])"
  by (auto simp: rows_for_def filter_empty_conv filter_id_conv dest: member_rows_fields)

lemma rows_for_Memberships:
  assumes "index_wf i"
  shows "rows_for slug key (Memberships i) =
    (case find_member i slug key of None \<Rightarrow> [] | Some m \<Rightarrow> member_rows slug m)"
proof -
  let ?rows = "\<lambda>slug'. concat (map (member_rows slug') (Members i slug' []))"
  have slug_nonempty: "slug' \<noteq> []" if "slug' \<in> set (TeamSlugs i)" for slug'
    using that assms by (auto simp: TeamSlugs_def index_wf_def index_shape_def list_all_iff team_shape_def)
  have "rows_for slug key (?rows slug') =
      (if slug' = slug then case find_member i slug key of None \<Rightarrow> [] | Some m \<Rightarrow> member_rows slug m else [])"
    if "slug' \<in> set (TeamSlugs i)" for slug'
  proof -
    have row: "rows_for slug key (member_rows slug' m) =
        (if slug' = slug \<and> toLower (mb_Handle m) = key then member_rows slug' m else [])"
      if "m \<in> set (Members i slug' [])" for m
    proof -
      have "find_member i slug' (toLower (mb_Handle m)) = Some m"
        using that by (simp add: set_Members [OF assms])
      then have "mb_Handle m \<noteq> []"
        using index_wf_member [OF assms] by (auto simp: member_wf_def)
      with slug_nonempty [OF \<open>slug' \<in> set (TeamSlugs i)\<close>] show ?thesis
        by (simp add: rows_for_member_rows)
    qed
    have "rows_for slug key (?rows slug') =
        concat (map (\<lambda>m. rows_for slug key (member_rows slug' m)) (Members i slug' []))"
      by (simp add: rows_for_concat comp_def)
    also have "\<dots> = concat (map (\<lambda>m. if slug' = slug \<and> toLower (mb_Handle m) = key
        then member_rows slug' m else []) (Members i slug' []))"
      by (simp add: row cong: map_cong)
    also have "\<dots> = (if slug' = slug
        then concat (map (member_rows slug) (filter (\<lambda>m. toLower (mb_Handle m) = key) (Members i slug []))) else [])"
      by (simp add: concat_map_filter)
    finally show ?thesis
      by (auto simp: filter_Members_key [OF assms] split: option.splits)
  qed
  then have "rows_for slug key (Memberships i) =
      concat (map (\<lambda>slug'. if slug' = slug
        then case find_member i slug key of None \<Rightarrow> [] | Some m \<Rightarrow> member_rows slug m else []) (TeamSlugs i))"
    by (simp add: Memberships_def rows_for_concat cong: map_cong)
  also have "\<dots> = (if slug \<in> set (TeamSlugs i)
      then case find_member i slug key of None \<Rightarrow> [] | Some m \<Rightarrow> member_rows slug m else [])"
    using assms by (intro concat_map_single) (simp add: index_wf_def)
  finally show ?thesis
    using set_TeamSlugs [OF index_wf_shape [OF assms], of slug]
    by (auto simp: has_team_def split: option.splits)
qed

lemma Build_Memberships_find:
  "index_wf i \<Longrightarrow> index_attributed i \<Longrightarrow>
   find_member (Build t (Memberships i)) slug key = find_member i slug key"
proof (cases "find_member i slug key")
  case None
  assume "index_wf i"
  with None show ?thesis
    by (simp add: Build_find_member rows_for_Memberships) (simp add: member_spec_def)
next
  case (Some m)
  assume "index_wf i" and "index_attributed i"
  with Some have "member_spec (member_rows slug m) = Some m"
    by (intro member_spec_member_rows) (blast intro: index_wf_member index_attributed_find)+
  with Some \<open>index_wf i\<close> show ?thesis
    by (simp add: Build_find_member rows_for_Memberships)
qed

lemma Build_GeneratedAt [simp]: "ix_GeneratedAt (Build t rows) = t"
proof -
  have "ix_GeneratedAt (foldl build_step i rows) = ix_GeneratedAt i" for i
    by (induction rows arbitrary: i) (auto simp: build_step_def Let_def)
  then show ?thesis by (simp add: Build_def sortProvenance_def)
qed

section \<open>Developers across teams\<close>

text \<open>
  The abstract view of \<open>Users\<close>: visit the teams in slug order and merge the member
  records of one handle.
\<close>

definition user_spec :: "index \<Rightarrow> string \<Rightarrow> string list \<Rightarrow> user option" where
  "user_spec i key slugs =
     foldl (\<lambda>found slug. case find_member i slug key of
         None \<Rightarrow> found | Some m \<Rightarrow> Some (merge_user slug found m)) None slugs"

lemma fold_put_members:
  "gomap ms \<Longrightarrow>
   map_of (foldl (\<lambda>agg (key, m). put key (merge_user slug (map_of agg key) m) agg) agg ms) k =
     (case map_of ms k of None \<Rightarrow> map_of agg k | Some m \<Rightarrow> Some (merge_user slug (map_of agg k) m))"
proof (induction ms arbitrary: agg)
  case Nil
  then show ?case by simp
next
  case (Cons p ms)
  obtain key m where p: "p = (key, m)" by fastforce
  have "gomap ms" and "map_of ms key = None"
    using Cons.prems by (simp_all add: p gomap_def map_of_eq_None_iff)
  then show ?case
    by (simp add: p Cons.IH gomap_simps split: option.split)
qed

lemma fold_put_gomap:
  "gomap agg \<Longrightarrow>
   gomap (foldl (\<lambda>agg (key, m). put key (merge_user slug (map_of agg key) m) agg) agg ms)"
  by (induction ms arbitrary: agg) (auto simp: split_def)

lemma users_team_find:
  assumes "index_shape i"
  shows "map_of (users_team i agg slug) key =
    (case find_member i slug key of
       None \<Rightarrow> map_of agg key | Some m \<Rightarrow> Some (merge_user slug (map_of agg key) m))"
proof (cases "map_of (ix_Teams i) slug")
  case None
  then show ?thesis by (simp add: users_team_def find_member_def)
next
  case (Some t)
  then have "gomap (tm_Members t)"
    using index_shape_team [OF assms Some] by (simp add: team_shape_def)
  then show ?thesis
    by (simp add: users_team_def find_member_def Some fold_put_members)
qed

lemma users_team_gomap: "gomap agg \<Longrightarrow> gomap (users_team i agg slug)"
  by (simp add: users_team_def fold_put_gomap split: option.split)

lemma fold_users_team_gomap: "gomap agg \<Longrightarrow> gomap (foldl (users_team i) agg slugs)"
  by (induction slugs arbitrary: agg) (simp_all add: users_team_gomap)

lemma fold_users_team_find:
  assumes "index_shape i"
  shows "map_of (foldl (users_team i) agg slugs) key =
    foldl (\<lambda>found slug. case find_member i slug key of
         None \<Rightarrow> found | Some m \<Rightarrow> Some (merge_user slug found m)) (map_of agg key) slugs"
  by (induction slugs arbitrary: agg)
    (simp_all add: users_team_find [OF assms] cong: option.case_cong)

lemma merge_user_simps [simp]:
  "us_Handle (merge_user slug found m) = (case found of None \<Rightarrow> mb_Handle m | Some u \<Rightarrow> us_Handle u)"
  "us_Teams (merge_user slug found m) =
     appendUnique (case found of None \<Rightarrow> [] | Some u \<Rightarrow> us_Teams u) slug"
  "us_Sources (merge_user slug found m) =
     foldl appendUnique (case found of None \<Rightarrow> [] | Some u \<Rightarrow> us_Sources u) (mb_Sources m)"
  "us_Orgs (merge_user slug found m) =
     foldl appendUnique (case found of None \<Rightarrow> [] | Some u \<Rightarrow> us_Orgs u) (mb_Orgs m)"
  "us_Name (merge_user slug found m) =
     (case found of None \<Rightarrow> mb_Name m | Some u \<Rightarrow> if us_Name u = [] then mb_Name m else us_Name u)"
  by (auto simp: merge_user_def Let_def split: option.splits)

definition slugs_of :: "index \<Rightarrow> string \<Rightarrow> string list \<Rightarrow> string list" where
  "slugs_of i key slugs = filter (\<lambda>slug. find_member i slug key \<noteq> None) slugs"

lemma slugs_of_snoc:
  "slugs_of i key (slugs @ [slug]) =
     (if find_member i slug key = None then slugs_of i key slugs else slugs_of i key slugs @ [slug])"
  by (simp add: slugs_of_def)

lemma user_spec_snoc:
  "user_spec i key (slugs @ [slug]) =
     (case find_member i slug key of None \<Rightarrow> user_spec i key slugs
      | Some m \<Rightarrow> Some (merge_user slug (user_spec i key slugs) m))"
  by (simp add: user_spec_def split: option.split)

text \<open>What \<open>user_spec\<close> computes, field by field.\<close>

lemma user_spec_None: "user_spec i key slugs = None \<longleftrightarrow> slugs_of i key slugs = []"
  by (induction slugs rule: rev_induct)
    (auto simp: user_spec_snoc slugs_of_snoc split: option.split, simp_all add: user_spec_def slugs_of_def)

lemma user_spec_fields:
  "user_spec i key slugs = Some u \<Longrightarrow> distinct slugs \<Longrightarrow>
   us_Teams u = slugs_of i key slugs \<and>
   us_Handle u = mb_Handle (the (find_member i (hd (slugs_of i key slugs)) key)) \<and>
   us_Name u = first_nonempty (map (\<lambda>s. mb_Name (the (find_member i s key))) (slugs_of i key slugs)) \<and>
   set (us_Sources u) = (\<Union>s\<in>set (slugs_of i key slugs). set (mb_Sources (the (find_member i s key)))) \<and>
   set (us_Orgs u) = (\<Union>s\<in>set (slugs_of i key slugs). set (mb_Orgs (the (find_member i s key)))) \<and>
   distinct (us_Sources u) \<and> distinct (us_Orgs u)"
proof (induction slugs arbitrary: u rule: rev_induct)
  case Nil
  then show ?case by (simp add: user_spec_def)
next
  case (snoc slug slugs)
  show ?case
  proof (cases "find_member i slug key")
    case None
    with snoc show ?thesis by (simp add: user_spec_snoc slugs_of_snoc)
  next
    case (Some m)
    then have u: "u = merge_user slug (user_spec i key slugs) m"
      using snoc.prems(1) by (simp add: user_spec_snoc)
    have teams: "slugs_of i key (slugs @ [slug]) = slugs_of i key slugs @ [slug]"
      by (simp add: slugs_of_snoc Some)
    show ?thesis
    proof (cases "user_spec i key slugs")
      case None
      then have "slugs_of i key slugs = []" by (simp add: user_spec_None)
      with None show ?thesis
        unfolding u teams by (simp add: Some appendUnique_def)
    next
      case (Some v)
      have "distinct slugs" and "slug \<notin> set slugs"
        using snoc.prems(2) by auto
      then have "slug \<notin> set (slugs_of i key slugs)"
        by (simp add: slugs_of_def)
      moreover have "slugs_of i key slugs \<noteq> []"
        using Some user_spec_None [of i key slugs] by auto
      ultimately show ?thesis
        using snoc.IH [OF Some \<open>distinct slugs\<close>] \<open>find_member i slug key = Some m\<close>
        unfolding u teams Some by (auto simp: appendUnique_def first_nonempty_append)
    qed
  qed
qed


definition index_keys :: "index \<Rightarrow> string set" where
  "index_keys i = (\<Union>slug\<in>set (TeamSlugs i). team_keys i slug)"

lemma finite_index_keys [simp]: "finite (index_keys i)"
  by (simp add: index_keys_def)

lemma in_index_keys:
  "index_shape i \<Longrightarrow> key \<in> index_keys i \<longleftrightarrow> (\<exists>slug m. find_member i slug key = Some m)"
  by (simp add: index_keys_def in_team_keys) (metis has_team_def set_TeamSlugs)

lemma slugs_of_TeamSlugs:
  assumes "index_shape i"
  shows "slugs_of i key (TeamSlugs i) = [] \<longleftrightarrow> key \<notin> index_keys i"
  by (auto simp: slugs_of_def filter_empty_conv index_keys_def in_team_keys)

lemma user_spec_TeamSlugs:
  assumes "index_shape i"
  shows "(\<exists>u. user_spec i key (TeamSlugs i) = Some u) \<longleftrightarrow> key \<in> index_keys i"
  using user_spec_None [of i key "TeamSlugs i"] slugs_of_TeamSlugs [OF assms]
  by (cases "user_spec i key (TeamSlugs i)") auto

lemma user_spec_key:
  assumes "index_wf i" and u: "user_spec i key (TeamSlugs i) = Some u"
  shows "toLower (us_Handle u) = key"
proof -
  have "slugs_of i key (TeamSlugs i) \<noteq> []"
    using user_spec_None [of i key "TeamSlugs i"] u by simp
  then have "hd (slugs_of i key (TeamSlugs i)) \<in> set (slugs_of i key (TeamSlugs i))"
    by simp
  then obtain m where "find_member i (hd (slugs_of i key (TeamSlugs i))) key = Some m"
    by (auto simp: slugs_of_def)
  moreover have "us_Handle u = mb_Handle (the (find_member i (hd (slugs_of i key (TeamSlugs i))) key))"
    using user_spec_fields [OF u] assms(1) by (simp add: index_wf_def)
  ultimately show ?thesis
    using index_wf_key [OF assms(1)] by simp
qed

lemma Users_eq:
  assumes "index_wf i"
  shows "Users i =
     map (\<lambda>key. sort_user (the (user_spec i key (TeamSlugs i)))) (sorted_list_of_set (index_keys i))"
proof -
  let ?agg = "foldl (users_team i) [] (TeamSlugs i)"
  let ?us = "map (\<lambda>(_, u). sort_user u) ?agg"
  let ?key = "\<lambda>u. toLower (us_Handle u)"
  have go: "gomap ?agg"
    by (simp add: fold_users_team_gomap)
  have find: "map_of ?agg key = user_spec i key (TeamSlugs i)" for key
    using assms by (simp add: fold_users_team_find index_wf_def user_spec_def)
  have key: "?key (sort_user u) = key" if "(key, u) \<in> set ?agg" for key u
    using that user_spec_key [OF assms] find
    by (simp add: gomap_in_set [OF go] sort_user_def)
  have eq: "map ?key ?us = map fst ?agg"
    using key by auto
  have dist: "distinct (map ?key ?us)"
    unfolding eq using go by (simp only: gomap_def)
  have "?key ` set ?us = set (map ?key ?us)"
    by (simp only: set_map)
  then have keys: "?key ` set ?us = keys_of ?agg"
    by (simp only: eq set_map)
  have "keys_of ?agg = index_keys i"
    using user_spec_TeamSlugs [OF index_wf_shape [OF assms]] find by (auto simp: keys_of_dom set_eq_iff)
  moreover have "sort_key ?key ?us =
      map (\<lambda>key. sort_user (the (user_spec i key (TeamSlugs i)))) (sorted_list_of_set (?key ` set ?us))"
  proof (rule map_eq_via_key [OF sort_key_sorted_keys [OF dist]])
    fix u
    assume "u \<in> set (sort_key ?key ?us)"
    then obtain key v where kv: "(key, v) \<in> set ?agg" "u = sort_user v"
      by auto
    then have "user_spec i key (TeamSlugs i) = Some v"
      by (simp add: gomap_in_set [OF go] find)
    with kv show "sort_user (the (user_spec i (?key u) (TeamSlugs i))) = u"
      by (simp add: key)
  qed
  ultimately show ?thesis
    unfolding keys by (simp add: Users_def Let_def)
qed

lemma Users_keys:
  assumes "index_wf i"
  shows "map (\<lambda>u. toLower (us_Handle u)) (Users i) = sorted_list_of_set (index_keys i)"
proof -
  have "toLower (us_Handle (sort_user (the (user_spec i key (TeamSlugs i))))) = key"
    if "key \<in> index_keys i" for key
    using that user_spec_key [OF assms] user_spec_TeamSlugs [OF index_wf_shape [OF assms], of key]
    by (auto simp: sort_user_def)
  then show ?thesis
    by (simp add: Users_eq [OF assms]) (rule map_idI, simp)
qed

lemma index_eq_Users:
  assumes "index_wf i" and "index_wf j" and "index_eq i j"
  shows "Users i = Users j"
proof -
  have "TeamSlugs i = TeamSlugs j"
    using assms by (intro index_eq_TeamSlugs) (simp_all add: index_wf_def)
  moreover from this have "index_keys i = index_keys j"
    using assms(3) by (simp add: index_keys_def team_keys_def index_eq_def)
  ultimately show ?thesis
    using assms by (simp add: Users_eq user_spec_def index_eq_def)
qed

section \<open>Reverse lookup\<close>

lemma map_filter_alist:
  "gomap m \<Longrightarrow>
   map_of (List.map_filter (\<lambda>(k, v). map_option (Pair k) (f v)) m) k = Option.bind (map_of m k) f"
proof (induction m)
  case Nil
  then show ?case by simp
next
  case (Cons p m)
  obtain k' v where p: "p = (k', v)" by fastforce
  have "gomap m" and k': "map_of m k' = None"
    using Cons.prems by (simp_all add: p gomap_def map_of_eq_None_iff)
  have IH: "map_of (List.map_filter (\<lambda>(k, v). map_option (Pair k) (f v)) m) k = Option.bind (map_of m k) f"
    by (rule Cons.IH) fact
  with k' show ?case
    by (cases "k = k'"; cases "f v") (simp_all add: p)
qed

lemma gomap_map_filter:
  "gomap m \<Longrightarrow> gomap (List.map_filter (\<lambda>(k, v). map_option (Pair k) (f v)) m)"
proof (induction m)
  case Nil
  then show ?case by simp
next
  case (Cons p m)
  have "keys_of (List.map_filter (\<lambda>(k, v). map_option (Pair k) (f v)) m) \<subseteq> keys_of m"
    by (force simp: List.map_filter_def)
  with Cons show ?case
    by (cases p) (auto simp: gomap_def split: option.split)
qed

lemma Lookup_find:
  "index_shape i \<Longrightarrow> map_of (Lookup i handle) slug = find_member i slug (toLower handle)"
  by (simp add: Lookup_def map_filter_alist index_shape_def find_member_def Option.bind_def
      split: option.split)

lemma gomap_Lookup: "index_shape i \<Longrightarrow> gomap (Lookup i handle)"
  by (simp add: Lookup_def gomap_map_filter index_shape_def)

lemma Lookup_empty_iff:
  assumes "index_shape i"
  shows "Lookup i handle = [] \<longleftrightarrow> toLower handle \<notin> index_keys i"
proof -
  have "Lookup i handle = [] \<longleftrightarrow> (\<forall>slug. map_of (Lookup i handle) slug = None)"
    by (metis map_of_eq_empty_iff)
  then show ?thesis
    by (simp add: Lookup_find [OF assms] in_index_keys [OF assms])
qed

end
