(* ===== verification/Json.thy ===== *)
theory Json
  imports Prelude
begin

text \<open>
  What the program uses of \<open>encoding/json\<close>: the mapping between Go values and JSON
  values that struct tags define. The text layer is abstracted: a \<open>document\<close> is a
  sequence of bytes up to JSON syntax, either the text of a JSON value (\<open>Doc\<close>) or bytes
  that do not parse (\<open>Corrupt\<close>). Encoding a Go map writes its keys in sorted order,
  whatever order the map is iterated in. A string is its bytes, taken to be UTF-8, which Go
  writes and reads back unchanged; the documents are those of Go's encoder, with no key twice in
  an object and every key in the case of its tag.
\<close>

section \<open>JSON values and documents\<close>

text \<open>
  \<open>JTime\<close> is the string token of a \<open>time.Time\<close> (RFC 3339 with nanoseconds),
  \<open>JSeconds\<close> the number token of \<open>Duration.Seconds()\<close>.
\<close>

datatype json =
    JNull
  | JBool bool
  | JNum int
  | JStr string
  | JTime time
  | JSeconds duration
  | JArr "json list"
  | JObj "(string \<times> json) list"

datatype document = Doc json | Corrupt string

fun parse_document :: "document \<Rightarrow> json option" where
  "parse_document (Doc j) = Some j"
| "parse_document (Corrupt _) = None"

section \<open>Reading fields\<close>

text \<open>
  \<open>json.Unmarshal\<close> into a struct leaves a field at its zero value when the key is absent
  or \<open>null\<close>, and fails when the value has another type.
\<close>

fun dec_str :: "json \<Rightarrow> string option" where
  "dec_str (JStr s) = Some s"
| "dec_str JNull = Some []"
| "dec_str _ = None"

fun dec_num :: "json \<Rightarrow> int option" where
  "dec_num (JNum n) = Some n"
| "dec_num JNull = Some 0"
| "dec_num _ = None"

fun dec_time :: "json \<Rightarrow> time option" where
  "dec_time (JTime t) = Some t"
| "dec_time JNull = Some zero_time"
| "dec_time _ = None"

fun all_some :: "'a option list \<Rightarrow> 'a list option" where
  "all_some [] = Some []"
| "all_some (None # _) = None"
| "all_some (Some x # xs) = map_option (Cons x) (all_some xs)"

fun dec_list :: "(json \<Rightarrow> 'a option) \<Rightarrow> json \<Rightarrow> 'a list option" where
  "dec_list dec (JArr js) = all_some (map dec js)"
| "dec_list dec JNull = Some []"
| "dec_list dec _ = None"

definition dec_entry :: "(json \<Rightarrow> 'a option) \<Rightarrow> string \<times> json \<Rightarrow> (string \<times> 'a) option" where
  "dec_entry dec p = map_option (Pair (fst p)) (dec (snd p))"

fun dec_map :: "(json \<Rightarrow> 'a option) \<Rightarrow> json \<Rightarrow> (string \<times> 'a) list option" where
  "dec_map dec (JObj kvs) = all_some (map (dec_entry dec) kvs)"
| "dec_map dec JNull = Some []"
| "dec_map dec _ = None"

definition field :: "(string \<times> json) list \<Rightarrow> string \<Rightarrow> json" where
  "field kvs key = (case map_of kvs key of None \<Rightarrow> JNull | Some j \<Rightarrow> j)"

section \<open>Writing fields\<close>

definition enc_list :: "('a \<Rightarrow> json) \<Rightarrow> 'a list \<Rightarrow> json" where
  "enc_list enc xs = JArr (map enc xs)"

text \<open>A slice that was never appended to is nil, which is written \<open>null\<close>.\<close>

definition enc_slice :: "('a \<Rightarrow> json) \<Rightarrow> 'a list \<Rightarrow> json" where
  "enc_slice enc xs = (if xs = [] then JNull else JArr (map enc xs))"

definition enc_map :: "('a \<Rightarrow> json) \<Rightarrow> (string \<times> 'a) list \<Rightarrow> json" where
  "enc_map enc m = JObj (map (\<lambda>(k, v). (k, enc v)) (sort_key fst m))"

text \<open>\<open>omitempty\<close> and \<open>omitzero\<close>: the field is left out.\<close>

definition omit_if :: "bool \<Rightarrow> string \<Rightarrow> json \<Rightarrow> (string \<times> json) list" where
  "omit_if skip key j = (if skip then [] else [(key, j)])"

lemma all_some_map: "(\<And>x. x \<in> set xs \<Longrightarrow> f x = Some (g x)) \<Longrightarrow> all_some (map f xs) = Some (map g xs)"
  by (induction xs) auto

lemma dec_list_enc_list:
  "(\<And>x. x \<in> set xs \<Longrightarrow> dec (enc x) = Some (g x)) \<Longrightarrow> dec_list dec (enc_list enc xs) = Some (map g xs)"
  by (simp add: enc_list_def comp_def all_some_map)

lemma dec_list_enc_slice:
  "(\<And>x. x \<in> set xs \<Longrightarrow> dec (enc x) = Some (g x)) \<Longrightarrow> dec_list dec (enc_slice enc xs) = Some (map g xs)"
  by (simp add: enc_slice_def comp_def all_some_map)

lemma dec_strings [simp]:
  "dec_list dec_str (enc_list JStr xs) = Some xs" "dec_list dec_str (enc_slice JStr xs) = Some xs"
  using dec_list_enc_list [of xs dec_str JStr "\<lambda>x. x"] dec_list_enc_slice [of xs dec_str JStr "\<lambda>x. x"]
  by simp_all

definition sorted_map :: "('a \<Rightarrow> 'b) \<Rightarrow> (string \<times> 'a) list \<Rightarrow> (string \<times> 'b) list" where
  "sorted_map f m = map (\<lambda>(k, v). (k, f v)) (sort_key fst m)"

lemma sort_key_map_entries:
  "sort_key fst (map (\<lambda>(k, v). (k, f v)) m) = map (\<lambda>(k, v). (k, f v)) (sort_key fst m)"
proof (rule sym, rule properties_for_sort_key [symmetric])
  let ?g = "\<lambda>(k, v). (k, f v)"
  show "mset (map ?g (sort_key fst m)) = mset (map ?g m)"
    by simp
  have fst_g: "fst \<circ> ?g = fst"
    by (simp add: comp_def split_def)
  show "sorted (map fst (map ?g (sort_key fst m)))"
    by (simp add: fst_g)
  show "filter (\<lambda>x. fst k = fst x) (map ?g (sort_key fst m)) = filter (\<lambda>x. fst k = fst x) (map ?g m)" for k
  proof -
    have "(\<lambda>x. fst k = fst x) \<circ> ?g = (\<lambda>x. fst k = fst x)"
      by (simp add: comp_def split_def)
    moreover have "filter (\<lambda>x. fst k = fst x) (sort_key fst m) = filter (\<lambda>x. fst k = fst x) m"
      using sort_key_stable [of fst "fst k" m] by (simp only: eq_commute [of "fst k"])
    ultimately show ?thesis
      by (simp add: filter_map)
  qed
qed

lemma sorted_map_sorted: "sort_key fst (sorted_map f m) = sorted_map f m"
  by (simp add: sorted_map_def sort_key_map_entries sort_key_id_if_sorted)

lemma gomap_sort_key [simp, wf_intros]: "gomap m \<Longrightarrow> gomap (sort_key fst m)"
  by (simp add: gomap_def distinct_map)

lemma map_of_sort_key: "gomap m \<Longrightarrow> map_of (sort_key fst m) = map_of m"
  by (rule map_of_inject_set [THEN iffD2]) (simp_all add: gomap_def distinct_map)

lemma map_of_sorted_map: "gomap m \<Longrightarrow> map_of (sorted_map f m) k = map_option f (map_of m k)"
  by (simp add: sorted_map_def map_of_map_entries map_of_sort_key)

lemma dec_map_enc_map:
  "(\<And>k v. (k, v) \<in> set m \<Longrightarrow> dec (enc v) = Some (g v)) \<Longrightarrow>
   dec_map dec (enc_map enc m) = Some (sorted_map g m)"
  by (auto simp: enc_map_def sorted_map_def dec_entry_def comp_def split_def intro!: all_some_map)

text \<open>Two Go maps with the same content are encoded to the same bytes.\<close>

lemma enc_map_same:
  assumes "gomap a" and "gomap b" and "map_of a = map_of b"
  shows "enc_map enc a = enc_map enc b"
proof -
  have "sort_key fst a = sort_key fst b"
    using assms by (intro sort_key_unique gomap_same_mset) (simp_all add: gomap_def distinct_map)
  then show ?thesis by (simp add: enc_map_def)
qed

section \<open>The contract of an encoding\<close>

text \<open>
  What the writer and the readers of a document rely on: decoding what was encoded gives the
  value back, up to the iteration order of its maps (\<open>norm\<close>), and that order does not
  show in the encoding. \<open>valid\<close> is the set of values the program encodes.
\<close>

locale codec =
  fixes valid :: "'a \<Rightarrow> bool"
    and enc :: "'a \<Rightarrow> json"
    and dec :: "json \<Rightarrow> 'a option"
    and norm :: "'a \<Rightarrow> 'a"
  assumes dec_enc: "valid x \<Longrightarrow> dec (enc x) = Some (norm x)"
    and enc_norm: "valid x \<Longrightarrow> enc (norm x) = enc x"
    and valid_norm: "valid x \<Longrightarrow> valid (norm x)"
begin

lemma reencode: "valid x \<Longrightarrow> dec (enc x) = Some y \<Longrightarrow> enc y = enc x"
  using dec_enc enc_norm by force

lemma norm_idem: "valid x \<Longrightarrow> norm (norm x) = norm x"
  using dec_enc [of "norm x"] dec_enc [of x] by (simp add: enc_norm valid_norm)

lemma dec_list_enc: "list_all valid xs \<Longrightarrow> dec_list dec (enc_list enc xs) = Some (map norm xs)"
  by (rule dec_list_enc_list) (simp add: list_all_iff dec_enc)

lemma dec_map_enc:
  "list_all (\<lambda>(_, v). valid v) m \<Longrightarrow> dec_map dec (enc_map enc m) = Some (sorted_map norm m)"
  by (rule dec_map_enc_map) (auto simp: list_all_iff dec_enc)

lemma enc_sorted_map:
  assumes "list_all (\<lambda>(_, v). valid v) m"
  shows "enc_map enc (sorted_map norm m) = enc_map enc m"
proof -
  have "map (\<lambda>(k, v). (k, enc v)) (map (\<lambda>(k, v). (k, norm v)) (sort_key fst m)) =
      map (\<lambda>(k, v). (k, enc v)) (sort_key fst m)"
    using assms by (auto simp: list_all_iff enc_norm)
  then show ?thesis
    by (simp add: enc_map_def sorted_map_sorted) (simp add: sorted_map_def)
qed

end

end
