(* ===== verification/Files.thy ===== *)
theory Files
  imports Json
begin

text \<open>
  The file operations that \<open>index.Save\<close> and \<open>keys.writeEntry\<close> share: write a
  temporary file in the target's directory, close it, rename it over the target. What the
  operating system answers at each call is an argument (\<open>write_env\<close>), and the result
  lists every state the file system goes through, so that a theorem about all of them covers a
  concurrent reader and a crash at any point.
\<close>

section \<open>File system and system calls\<close>

type_synonym fs = "(string \<times> document) list"

record write_env =
  we_mkdir :: "error option"              \<comment> \<open>\<open>os.MkdirAll\<close>\<close>
  we_marshal :: "error option"            \<comment> \<open>\<open>json.MarshalIndent\<close>\<close>
  we_create :: "error + string"           \<comment> \<open>\<open>os.CreateTemp\<close>: the random part of the name\<close>
  we_write :: "(error \<times> string) option"   \<comment> \<open>\<open>tmp.Write\<close>: the bytes a failed write leaves\<close>
  we_close :: "error option"              \<comment> \<open>\<open>tmp.Close\<close>\<close>
  we_rename :: "error option"             \<comment> \<open>\<open>os.Rename\<close>\<close>
  we_remove :: "error option"             \<comment> \<open>\<open>os.Remove\<close> of the temporary file\<close>

datatype write_error =
    Create_dir error | Marshal error | Create_temp error | Write_temp error
  | Close_temp error | Rename_temp error | Unsafe_key string

definition temp_name :: "string \<Rightarrow> string \<Rightarrow> string" where
  "temp_name target rnd = target @ ''.tmp-'' @ rnd"

text \<open>
  From \<open>os.CreateTemp\<close> to the rename: the error, if any, and the states after each call.
  \<open>os.CreateTemp\<close> opens a file that does not exist yet.
\<close>

definition write_temp_rename ::
    "write_env \<Rightarrow> string \<Rightarrow> document \<Rightarrow> fs \<Rightarrow> write_error option \<times> fs list" where
  "write_temp_rename env target data fs =
     (case we_create env of
        Inl e \<Rightarrow> (Some (Create_temp e), [])
      | Inr rnd \<Rightarrow>
          let tmp = temp_name target rnd;
              created = put tmp (Corrupt []) fs;
              cleanup = (\<lambda>s. if we_remove env = None then del tmp s else s)
          in case we_write env of
               Some (e, partial) \<Rightarrow>
                 let written = put tmp (Corrupt partial) created
                 in (Some (Write_temp e), [created, written, cleanup written])
             | None \<Rightarrow>
                 let written = put tmp data created
                 in case we_close env of
                      Some e \<Rightarrow> (Some (Close_temp e), [created, written, cleanup written])
                    | None \<Rightarrow>
                        case we_rename env of
                          Some e \<Rightarrow> (Some (Rename_temp e), [created, written, cleanup written])
                        | None \<Rightarrow> (None, [created, written, put target data (del tmp written)]))"

definition final_state :: "fs \<Rightarrow> fs list \<Rightarrow> fs" where
  "final_state fs states = last (fs # states)"

lemma temp_name_neq [simp]: "temp_name target rnd \<noteq> target" "target \<noteq> temp_name target rnd"
  by (auto simp: temp_name_def)

lemma final_state_simps [simp]:
  "final_state fs [] = fs" "final_state fs (s # ss) = final_state s ss"
  by (simp_all add: final_state_def)

lemma write_temp_rename_target:
  assumes "s \<in> set (snd (write_temp_rename env target data fs))"
  shows "map_of s target = map_of fs target \<or> map_of s target = Some data"
  using assms
  by (auto simp: write_temp_rename_def Let_def gomap_simps
      split: sum.splits option.splits if_splits)

lemma write_temp_rename_success:
  "fst (write_temp_rename env target data fs) = None \<Longrightarrow>
   map_of (final_state fs (snd (write_temp_rename env target data fs))) target = Some data"
  by (auto simp: write_temp_rename_def Let_def gomap_simps
      split: sum.splits option.splits if_splits)

lemma write_temp_rename_failure:
  "fst (write_temp_rename env target data fs) = Some e \<Longrightarrow>
   map_of (final_state fs (snd (write_temp_rename env target data fs))) target = map_of fs target"
  by (auto simp: write_temp_rename_def Let_def gomap_simps
      split: sum.splits option.splits if_splits)

lemma write_temp_rename_frame:
  assumes "s \<in> set (snd (write_temp_rename env target data fs))"
    and "q \<noteq> target" and "\<And>rnd. we_create env = Inr rnd \<Longrightarrow> q \<noteq> temp_name target rnd"
  shows "map_of s q = map_of fs q"
  using assms
  by (auto simp: write_temp_rename_def Let_def gomap_simps
      split: sum.splits option.splits if_splits)

lemma write_temp_rename_gomap:
  "gomap fs \<Longrightarrow> s \<in> set (snd (write_temp_rename env target data fs)) \<Longrightarrow> gomap s"
  by (auto simp: write_temp_rename_def Let_def split: sum.splits option.splits if_splits)

section \<open>The contract of an atomic file writer\<close>

text \<open>
  A writer of single files: \<open>wr env loc x fs\<close> writes \<open>x\<close> to the file of
  \<open>loc\<close> and gives the error, if any, and the states the file system goes through.
  \<open>locate\<close> is \<open>None\<close> where nothing is to be written (persistence disabled, or
  a name that is refused). Both users of the protocol provide it.
\<close>

locale atomic_writer =
  fixes locate :: "'loc \<Rightarrow> string option"
    and wr :: "'env \<Rightarrow> 'loc \<Rightarrow> 'x \<Rightarrow> fs \<Rightarrow> 'err option \<times> fs list"
    and content :: "'x \<Rightarrow> document"
  assumes nothing_written: "locate loc = None \<Longrightarrow> snd (wr env loc x fs) = []"
    and never_partial:
      "locate loc = Some target \<Longrightarrow> s \<in> set (snd (wr env loc x fs)) \<Longrightarrow>
       map_of s target = map_of fs target \<or> map_of s target = Some (content x)"
    and success:
      "locate loc = Some target \<Longrightarrow> fst (wr env loc x fs) = None \<Longrightarrow>
       map_of (final_state fs (snd (wr env loc x fs))) target = Some (content x)"
    and failure:
      "locate loc = Some target \<Longrightarrow> fst (wr env loc x fs) = Some e \<Longrightarrow>
       map_of (final_state fs (snd (wr env loc x fs))) target = map_of fs target"
begin

text \<open>A reader never sees anything but the old document or the whole new one.\<close>

lemma reader_sees:
  assumes "locate loc = Some target" and "s \<in> set (fs # snd (wr env loc x fs))"
    and "map_of s target = Some d"
  shows "map_of fs target = Some d \<or> d = content x"
proof (cases "s = fs")
  case True
  with assms(3) show ?thesis by simp
next
  case False
  with assms(2) have "s \<in> set (snd (wr env loc x fs))" by simp
  from never_partial [OF assms(1) this] assms(3) show ?thesis by auto
qed

lemma outcome:
  "locate loc = Some target \<Longrightarrow>
   map_of (final_state fs (snd (wr env loc x fs))) target =
     (if fst (wr env loc x fs) = None then Some (content x) else map_of fs target)"
  using success failure by (cases "fst (wr env loc x fs)") auto

end

end
