(* ===== verification/IndexSnapshot.thy ===== *)
theory IndexSnapshot
  imports IndexQueries Files
begin

text \<open>
  Package \<open>internal/index\<close>, file \<open>snapshot.go\<close>, and the JSON form of an index that
  the struct tags of \<open>index.go\<close> define: \<open>Save\<close> writes it atomically,
  \<open>LoadSnapshot\<close> reads it back.
\<close>

section \<open>The JSON form of an index\<close>

definition enc_member :: "member \<Rightarrow> json" where
  "enc_member m =
     JObj ([(''handle'', JStr (mb_Handle m))] @
           omit_if (mb_Name m = []) ''name'' (JStr (mb_Name m)) @
           [(''sources'', enc_slice JStr (mb_Sources m))] @
           omit_if (mb_Orgs m = []) ''orgs'' (enc_slice JStr (mb_Orgs m)))"

definition enc_team :: "team \<Rightarrow> json" where
  "enc_team t =
     JObj [(''slug'', JStr (tm_Slug t)), (''members'', enc_map enc_member (tm_Members t))]"

definition enc_index :: "index \<Rightarrow> json" where
  "enc_index i =
     JObj [(''generatedAt'', JTime (ix_GeneratedAt i)), (''teams'', enc_map enc_team (ix_Teams i))]"

fun dec_member :: "json \<Rightarrow> member option" where
  "dec_member (JObj kvs) =
     Option.bind (dec_str (field kvs ''handle'')) (\<lambda>handle.
     Option.bind (dec_str (field kvs ''name'')) (\<lambda>name.
     Option.bind (dec_list dec_str (field kvs ''sources'')) (\<lambda>sources.
     Option.bind (dec_list dec_str (field kvs ''orgs'')) (\<lambda>orgs.
     Some \<lparr>mb_Handle = handle, mb_Name = name, mb_Sources = sources, mb_Orgs = orgs\<rparr>))))"
| "dec_member _ = None"

fun dec_team :: "json \<Rightarrow> team option" where
  "dec_team (JObj kvs) =
     Option.bind (dec_str (field kvs ''slug'')) (\<lambda>slug.
     Option.bind (dec_map dec_member (field kvs ''members'')) (\<lambda>members.
     Some \<lparr>tm_Slug = slug, tm_Members = members\<rparr>))"
| "dec_team _ = None"

fun dec_index :: "json \<Rightarrow> index option" where
  "dec_index (JObj kvs) =
     Option.bind (dec_time (field kvs ''generatedAt'')) (\<lambda>generatedAt.
     Option.bind (dec_map dec_team (field kvs ''teams'')) (\<lambda>teams.
     Some \<lparr>ix_GeneratedAt = generatedAt, ix_Teams = teams\<rparr>))"
| "dec_index JNull = Some \<lparr>ix_GeneratedAt = zero_time, ix_Teams = []\<rparr>"
| "dec_index _ = None"

text \<open>
  A map entry \<open>null\<close>, which Go decodes to a nil pointer and then dereferences, is a parse
  error here. \<open>Save\<close> never writes one.
\<close>

text \<open>The value a decoder returns: the same maps, iterated in key order.\<close>

definition norm_team :: "team \<Rightarrow> team" where
  "norm_team t = t\<lparr>tm_Members := sorted_map (\<lambda>m. m) (tm_Members t)\<rparr>"

definition norm_index :: "index \<Rightarrow> index" where
  "norm_index i = i\<lparr>ix_Teams := sorted_map norm_team (ix_Teams i)\<rparr>"

interpretation member_codec: codec "\<lambda>_. True" enc_member dec_member "\<lambda>m. m"
  by unfold_locales (simp_all add: enc_member_def field_def omit_if_def enc_slice_def comp_def
      all_some_map [where g = "\<lambda>s. s"] dec_str.simps)

interpretation team_codec: codec "\<lambda>_. True" enc_team dec_team norm_team
  by unfold_locales
    (simp_all add: enc_team_def norm_team_def field_def member_codec.dec_map_enc
      member_codec.enc_sorted_map list_all_iff)

interpretation index_codec: codec "\<lambda>_. True" enc_index dec_index norm_index
  by unfold_locales
    (simp_all add: enc_index_def norm_index_def field_def team_codec.dec_map_enc
      team_codec.enc_sorted_map list_all_iff)

section \<open>Save and LoadSnapshot\<close>

definition Save :: "write_env \<Rightarrow> index \<Rightarrow> string \<Rightarrow> fs \<Rightarrow> write_error option \<times> fs list" where
  "Save env idx path fs =
     (if path = [] then (None, [])
      else case we_mkdir env of
          Some e \<Rightarrow> (Some (Create_dir e), [])
        | None \<Rightarrow>
            case we_marshal env of
              Some e \<Rightarrow> (Some (Marshal e), [])
            | None \<Rightarrow> write_temp_rename env path (Doc (enc_index idx)) fs)"

datatype load_error = Read_failed string error | Parse_failed string

text \<open>
  \<open>read_err\<close> is what \<open>os.ReadFile\<close> answers for a file that exists.
\<close>

definition LoadSnapshot :: "error option \<Rightarrow> string \<Rightarrow> fs \<Rightarrow> load_error + index option" where
  "LoadSnapshot read_err path fs =
     (if path = [] then Inr None
      else case map_of fs path of
          None \<Rightarrow> Inr None
        | Some data \<Rightarrow>
            case read_err of
              Some e \<Rightarrow> Inl (Read_failed path e)
            | None \<Rightarrow>
                case Option.bind (parse_document data) dec_index of
                  None \<Rightarrow> Inl (Parse_failed path)
                | Some idx \<Rightarrow> Inr (Some idx))"

definition snapshot_file :: "string \<Rightarrow> string option" where
  "snapshot_file path = (if path = [] then None else Some path)"

interpretation index_file: atomic_writer snapshot_file "\<lambda>env path idx. Save env idx path"
    "\<lambda>idx. Doc (enc_index idx)"
  by unfold_locales
    (auto simp: Save_def snapshot_file_def write_temp_rename_success write_temp_rename_failure
      split: option.splits if_splits dest: write_temp_rename_target)

lemma LoadSnapshot_doc:
  "path \<noteq> [] \<Longrightarrow> map_of fs path = Some (Doc (enc_index idx)) \<Longrightarrow>
   LoadSnapshot None path fs = Inr (Some (norm_index idx))"
  by (simp add: LoadSnapshot_def index_codec.dec_enc)

section \<open>The index read back\<close>

lemma norm_index_find: "index_shape i \<Longrightarrow> find_member (norm_index i) = find_member i"
proof (intro ext)
  fix slug key
  assume i: "index_shape i"
  show "find_member (norm_index i) slug key = find_member i slug key"
  proof (cases "map_of (ix_Teams i) slug")
    case None
    with i show ?thesis
      by (simp add: find_member_def norm_index_def map_of_sorted_map index_shape_def)
  next
    case (Some t)
    have "gomap (tm_Members t)"
      using index_shape_team [OF i Some] by (simp add: team_shape_def)
    with i Some show ?thesis
      by (simp add: find_member_def norm_index_def norm_team_def map_of_sorted_map index_shape_def
          option.map_ident)
  qed
qed

lemma norm_index_eq: "index_shape i \<Longrightarrow> index_eq (norm_index i) i"
  by (simp add: index_eq_def norm_index_find) (simp add: norm_index_def)

lemma gomap_sorted_map [simp, wf_intros]: "gomap m \<Longrightarrow> gomap (sorted_map f m)"
  by (simp add: sorted_map_def)

lemma norm_index_shape: "index_shape i \<Longrightarrow> index_shape (norm_index i)"
proof (rule index_shapeI)
  assume i: "index_shape i"
  then show "gomap (ix_Teams (norm_index i))"
    by (simp add: norm_index_def index_shape_def)
  show "team_shape (slug, t)" if "map_of (ix_Teams (norm_index i)) slug = Some t" for slug t
  proof -
    have "map_option norm_team (map_of (ix_Teams i) slug) = Some t"
      using that i by (simp add: norm_index_def map_of_sorted_map index_shape_def)
    then obtain u where u: "map_of (ix_Teams i) slug = Some u" "t = norm_team u"
      by auto
    have "tm_Members u \<noteq> []" "gomap (tm_Members u)" "tm_Slug u = slug" "slug \<noteq> []"
      using index_shape_team [OF i u(1)] by (simp_all add: team_shape_def)
    then show ?thesis
      by (simp add: u(2) team_shape_def norm_team_def sorted_map_def)
        (metis length_0_conv length_sort)
  qed
qed

lemma norm_index_wf: "index_wf i \<Longrightarrow> index_wf (norm_index i)"
  using index_wf_find norm_index_shape norm_index_find index_wf_shape by metis

lemma index_wf_same:
  "index_shape j \<Longrightarrow> index_wf i \<Longrightarrow> find_member j = find_member i \<Longrightarrow> index_wf j"
  by (simp add: index_wf_find index_wf_member)

end
