(* ===== verification/KeysCache.thy ===== *)
theory KeysCache
  imports Files
begin

text \<open>
  Package \<open>internal/keys\<close>: the cached entry of one developer with its JSON form, and file
  \<open>cache.go\<close>, the on-disk cache with one file per handle: \<open>loadCache\<close>,
  \<open>writeEntry\<close>, \<open>removeEntry\<close> and the file name of a key.
\<close>

section \<open>Entries\<close>

record entry =
  en_Handle :: string
  en_Keys :: "string list"
  en_FetchedAt :: time
  en_LastAttempt :: time
  en_LastError :: string

definition zero_entry :: entry where
  "zero_entry = \<lparr>en_Handle = [], en_Keys = [], en_FetchedAt = zero_time, en_LastAttempt = zero_time,
     en_LastError = []\<rparr>"

definition enc_key_entry :: "entry \<Rightarrow> json" where
  "enc_key_entry e =
     JObj ([(''handle'', JStr (en_Handle e)), (''keys'', enc_slice JStr (en_Keys e))] @
           omit_if (isZero (en_FetchedAt e)) ''fetchedAt'' (JTime (en_FetchedAt e)) @
           omit_if (isZero (en_LastAttempt e)) ''lastAttempt'' (JTime (en_LastAttempt e)) @
           omit_if (en_LastError e = []) ''lastError'' (JStr (en_LastError e)))"

fun dec_key_entry :: "json \<Rightarrow> entry option" where
  "dec_key_entry (JObj kvs) =
     Option.bind (dec_str (field kvs ''handle'')) (\<lambda>handle.
     Option.bind (dec_list dec_str (field kvs ''keys'')) (\<lambda>ks.
     Option.bind (dec_time (field kvs ''fetchedAt'')) (\<lambda>fetchedAt.
     Option.bind (dec_time (field kvs ''lastAttempt'')) (\<lambda>lastAttempt.
     Option.bind (dec_str (field kvs ''lastError'')) (\<lambda>lastError.
     Some \<lparr>en_Handle = handle, en_Keys = ks, en_FetchedAt = fetchedAt, en_LastAttempt = lastAttempt,
           en_LastError = lastError\<rparr>)))))"
| "dec_key_entry JNull = Some zero_entry"
| "dec_key_entry _ = None"

interpretation entry_codec: codec "\<lambda>_. True" enc_key_entry dec_key_entry "\<lambda>e. e"
  by unfold_locales
    (auto simp: enc_key_entry_def field_def omit_if_def isZero_def)

section \<open>File names\<close>

definition entryFileExt :: string where
  "entryFileExt = ''.json''"

definition key_char :: "char \<Rightarrow> bool" where
  "key_char r \<longleftrightarrow> (CHR ''a'' \<le> r \<and> r \<le> CHR ''z'') \<or> (CHR ''0'' \<le> r \<and> r \<le> CHR ''9'') \<or>
     r = CHR ''-'' \<or> r = CHR ''_''"

text \<open>
  Go ranges over the runes of the key. A byte above ASCII belongs to a rune that is refused, so
  testing the bytes is the same.
\<close>

definition entryFileName :: "string \<Rightarrow> string option" where
  "entryFileName key =
     (if key = [] then None
      else if list_all key_char key then Some (key @ entryFileExt) else None)"

text \<open>\<open>filepath.Join(dir, name)\<close> for a clean \<open>dir\<close> and a name without separators.\<close>

definition entry_path :: "string \<Rightarrow> string \<Rightarrow> string" where
  "entry_path dir name = dir @ CHR ''/'' # name"

definition has_suffix :: "string \<Rightarrow> string \<Rightarrow> bool" where
  "has_suffix s suf = starts_with (rev suf) (rev s)"

lemma has_suffix_iff: "has_suffix s suf \<longleftrightarrow> (\<exists>t. s = t @ suf)"
proof -
  have "(rev s = rev suf @ t) = (s = rev t @ suf)" for t
    by (metis rev_append rev_rev_ident)
  then show ?thesis
    by (auto simp: has_suffix_def starts_with_iff) (metis rev_rev_ident)
qed

lemma entry_path_inject [simp]: "entry_path dir a = entry_path dir b \<longleftrightarrow> a = b"
  by (simp add: entry_path_def)

section \<open>Writing and removing\<close>

definition writeEntry ::
    "write_env \<Rightarrow> string \<Rightarrow> string \<Rightarrow> entry \<Rightarrow> fs \<Rightarrow> write_error option \<times> fs list" where
  "writeEntry env dir key e fs =
     (if dir = [] then (None, [])
      else case entryFileName key of
          None \<Rightarrow> (Some (Unsafe_key key), [])
        | Some name \<Rightarrow>
            case we_mkdir env of
              Some err \<Rightarrow> (Some (Create_dir err), [])
            | None \<Rightarrow>
                case we_marshal env of
                  Some err \<Rightarrow> (Some (Marshal err), [])
                | None \<Rightarrow> write_temp_rename env (entry_path dir name) (Doc (enc_key_entry e)) fs)"

text \<open>
  \<open>rm_err\<close> is what \<open>os.Remove\<close> answers for a file that exists.
\<close>

definition removeEntry :: "error option \<Rightarrow> string \<Rightarrow> string \<Rightarrow> fs \<Rightarrow> error option \<times> fs" where
  "removeEntry rm_err dir key fs =
     (if dir = [] then (None, fs)
      else case entryFileName key of
          None \<Rightarrow> (None, fs)
        | Some name \<Rightarrow>
            if map_of fs (entry_path dir name) = None then (None, fs)
            else case rm_err of
                Some err \<Rightarrow> (Some (''remove keys cache entry: '' @ err), fs)
              | None \<Rightarrow> (None, del (entry_path dir name) fs))"

definition entry_location :: "string \<times> string \<Rightarrow> string option" where
  "entry_location loc = (case loc of (dir, key) \<Rightarrow>
     if dir = [] then None else map_option (entry_path dir) (entryFileName key))"

interpretation entry_file: atomic_writer entry_location "\<lambda>env (dir, key) e. writeEntry env dir key e"
    "\<lambda>e. Doc (enc_key_entry e)"
  by unfold_locales
    (auto simp: writeEntry_def entry_location_def write_temp_rename_success write_temp_rename_failure
      split: option.splits if_splits prod.splits dest: write_temp_rename_target)

section \<open>Loading\<close>

text \<open>What \<open>os.ReadDir\<close> and \<open>os.ReadFile\<close> answer for what exists.\<close>

datatype dir_answer = Dir_ok | Dir_not_exist | Dir_failed error

record read_env =
  re_dir :: dir_answer
  re_file :: "string \<Rightarrow> error option"

datatype cache_error =
    Read_cache_dir string error | Read_cache_entry string error | Parse_cache_entry string

definition in_dir :: "string \<Rightarrow> string \<Rightarrow> bool" where
  "in_dir dir path \<longleftrightarrow>
     starts_with (dir @ ''/'') path \<and> CHR ''/'' \<notin> set (drop (length dir + 1) path)"

definition readDir :: "string \<Rightarrow> fs \<Rightarrow> (string \<times> document) list" where
  "readDir dir fs = map (\<lambda>(path, data). (drop (length dir + 1) path, data))
     (filter (\<lambda>(path, _). in_dir dir path) fs)"

definition trim_ext :: "string \<Rightarrow> string" where
  "trim_ext name = take (length name - length entryFileExt) name"

fun load_files ::
    "read_env \<Rightarrow> (string \<times> document) list \<Rightarrow> (string \<times> entry) list \<Rightarrow> cache_error + (string \<times> entry) list" where
  "load_files re [] out = Inr out"
| "load_files re ((name, data) # rest) out =
     (if \<not> has_suffix name entryFileExt then load_files re rest out
      else case re_file re name of
          Some err \<Rightarrow> Inl (Read_cache_entry name err)
        | None \<Rightarrow>
            case Option.bind (parse_document data) dec_key_entry of
              None \<Rightarrow> Inl (Parse_cache_entry name)
            | Some e \<Rightarrow> load_files re rest (put (trim_ext name) e out))"

definition loadCache :: "read_env \<Rightarrow> string \<Rightarrow> fs \<Rightarrow> cache_error + (string \<times> entry) list" where
  "loadCache re dir fs =
     (if dir = [] then Inr []
      else case re_dir re of
          Dir_not_exist \<Rightarrow> Inr []
        | Dir_failed err \<Rightarrow> Inl (Read_cache_dir dir err)
        | Dir_ok \<Rightarrow> load_files re (readDir dir fs) [])"

definition healthy_reads :: read_env where
  "healthy_reads = \<lparr>re_dir = Dir_ok, re_file = (\<lambda>_. None)\<rparr>"

lemma healthy_dir [simp]: "re_dir healthy_reads = Dir_ok"
  by (simp add: healthy_reads_def)

subsection \<open>What a load returns\<close>

definition loadable_file :: "string \<times> document \<Rightarrow> bool" where
  "loadable_file p \<longleftrightarrow> (has_suffix (fst p) entryFileExt \<longrightarrow>
     Option.bind (parse_document (snd p)) dec_key_entry \<noteq> None)"

lemma trim_ext_append [simp]: "trim_ext (key @ entryFileExt) = key"
  by (simp add: trim_ext_def)

lemma load_files_ok:
  assumes "list_all loadable_file files" and "gomap files"
  shows "\<exists>out'. load_files healthy_reads files out = Inr out' \<and>
    (\<forall>key. map_of out' key =
       (case Option.bind (map_of files (key @ entryFileExt)) (\<lambda>d. Option.bind (parse_document d) dec_key_entry) of
          None \<Rightarrow> map_of out key | Some e \<Rightarrow> Some e))"
  using assms
proof (induction files arbitrary: out)
  case Nil
  then show ?case by simp
next
  case (Cons f files)
  obtain name data where f: "f = (name, data)" by (cases f)
  have rest: "list_all loadable_file files" "gomap files" "name \<notin> fst ` set files"
    using Cons.prems by (auto simp: f gomap_def)
  show ?case
  proof (cases "has_suffix name entryFileExt")
    case False
    then have "key @ entryFileExt \<noteq> name" for key
      by (auto simp: has_suffix_iff)
    with False Cons.IH [OF rest(1,2), of out] show ?thesis
      by (simp add: f)
  next
    case True
    then obtain key where key: "name = key @ entryFileExt"
      by (auto simp: has_suffix_iff)
    obtain e where e: "Option.bind (parse_document data) dec_key_entry = Some e"
      using Cons.prems(1) True by (auto simp: f loadable_file_def)
    have "map_of files (key @ entryFileExt) = None"
      using rest(3) by (simp add: key map_of_eq_None_iff)
    with True e Cons.IH [OF rest(1,2), of "put key e out"] show ?thesis
      by (auto simp: f key healthy_reads_def gomap_simps split: option.split)
  qed
qed

lemma load_files_fails:
  "\<not> list_all loadable_file files \<Longrightarrow> \<exists>err. load_files healthy_reads files out = Inl err"
  by (induction files arbitrary: out)
    (auto simp: loadable_file_def healthy_reads_def split: option.split)

lemma drop_entry_path: "drop (Suc (length dir)) (entry_path dir name) = name"
  by (simp add: entry_path_def)

lemma in_dir_entry_path: "in_dir dir path \<longleftrightarrow> (\<exists>name. path = entry_path dir name \<and> CHR ''/'' \<notin> set name)"
  by (auto simp: in_dir_def entry_path_def starts_with_iff)

lemma map_of_readDir:
  "CHR ''/'' \<notin> set name \<Longrightarrow> map_of (readDir dir fs) name = map_of fs (entry_path dir name)"
proof (induction fs)
  case Nil
  then show ?case by (simp add: readDir_def)
next
  case (Cons p fs)
  then show ?case
    by (cases p) (auto simp: readDir_def in_dir_entry_path entry_path_def)
qed

lemma set_readDir:
  "(name, d) \<in> set (readDir dir fs) \<longleftrightarrow> (entry_path dir name, d) \<in> set fs \<and> CHR ''/'' \<notin> set name"
  by (force simp: readDir_def in_dir_entry_path entry_path_def)

lemma gomap_readDir: "gomap fs \<Longrightarrow> gomap (readDir dir fs)"
proof (induction fs)
  case Nil
  then show ?case by (simp add: readDir_def)
next
  case (Cons p fs)
  obtain path d where p: "p = (path, d)" by (cases p)
  have IH: "gomap (readDir dir fs)" and new: "path \<notin> fst ` set fs"
    using Cons by (auto simp: p gomap_def)
  show ?case
  proof (cases "in_dir dir path")
    case False
    with IH show ?thesis by (simp add: p readDir_def)
  next
    case True
    then obtain name where name: "path = entry_path dir name" by (auto simp: in_dir_entry_path)
    then have "name \<notin> fst ` set (readDir dir fs)"
      using new by (force simp: set_readDir image_iff name)
    moreover have "readDir dir (p # fs) = (name, d) # readDir dir fs"
      using True by (simp add: p name readDir_def drop_entry_path)
    ultimately show ?thesis
      using IH by (simp add: gomap_def)
  qed
qed

definition cache_loads :: "string \<Rightarrow> fs \<Rightarrow> bool" where
  "cache_loads dir fs \<longleftrightarrow> (case loadCache healthy_reads dir fs of Inl _ \<Rightarrow> False | Inr _ \<Rightarrow> True)"

lemma cache_loads_iff:
  assumes "gomap fs"
  shows "cache_loads dir fs \<longleftrightarrow> dir = [] \<or> list_all loadable_file (readDir dir fs)"
  using load_files_ok [OF _ gomap_readDir [OF assms], of dir "[]"] load_files_fails [of "readDir dir fs" "[]"]
  by (cases "list_all loadable_file (readDir dir fs)")
    (auto simp: cache_loads_def loadCache_def healthy_dir split: sum.split)

lemma loadCache_find:
  assumes "gomap fs" and "cache_loads dir fs" and "dir \<noteq> []"
  obtains out where "loadCache healthy_reads dir fs = Inr out"
    "\<And>key. CHR ''/'' \<notin> set key \<Longrightarrow> map_of out key =
       Option.bind (map_of fs (entry_path dir (key @ entryFileExt)))
         (\<lambda>d. Option.bind (parse_document d) dec_key_entry)"
proof -
  have slash: "CHR ''/'' \<notin> set entryFileExt"
    by (simp add: entryFileExt_def)
  obtain out where out: "load_files healthy_reads (readDir dir fs) [] = Inr out"
    "\<forall>key. map_of out key = (case Option.bind (map_of (readDir dir fs) (key @ entryFileExt))
         (\<lambda>d. Option.bind (parse_document d) dec_key_entry) of None \<Rightarrow> None | Some e \<Rightarrow> Some e)"
    using load_files_ok [OF _ gomap_readDir [OF assms(1)], of dir "[]"] assms cache_loads_iff [OF assms(1)]
    by (metis map_of.simps(1))
  have "loadCache healthy_reads dir fs = Inr out"
    using out(1) assms(3) by (auto simp: loadCache_def healthy_reads_def)
  moreover have "map_of out key = Option.bind (map_of fs (entry_path dir (key @ entryFileExt)))
      (\<lambda>d. Option.bind (parse_document d) dec_key_entry)" if "CHR ''/'' \<notin> set key" for key
    using out(2) that slash by (simp add: map_of_readDir split: option.split)
  ultimately show thesis by (rule that)
qed

end
