(* ===== verification/Syncer.thy ===== *)
theory Syncer
  imports IndexSnapshot
begin

text \<open>
  Package \<open>internal/syncer\<close>: one refresh of every source (\<open>fetchOne\<close>), the sync
  that merges them and decides what is published and persisted (\<open>Sync\<close>), the recovery
  from a snapshot (\<open>restoreLastGood\<close>, \<open>Seed\<close>, \<open>Start\<close>) and the refresh loop.

  \<open>Sync\<close> runs one goroutine per source. Its argument is the list of observed sources
  in the order in which their goroutines take the merge lock, so a theorem for every
  permutation of that list covers every schedule.
\<close>

section \<open>State\<close>

record floor =
  fl_MinMembers :: int
  fl_MinTeams :: int

record source_status =
  ss_Name :: string
  ss_LastAttempt :: time
  ss_LastSuccess :: time
  ss_LastError :: string
  ss_Members :: nat
  ss_Teams :: nat
  ss_Warnings :: "string list"

record syncer =
  sy_store :: store
  sy_interval :: duration
  sy_snapshot :: string
  sy_floors :: "(string \<times> floor) list"
  sy_exclude :: "(string \<times> bool) list"
  sy_lastGood :: "(string \<times> membership list) list"
  sy_status :: "(string \<times> source_status) list"

text \<open>
  What one call of \<open>fetchOne\<close> observes of its source: \<open>Name()\<close>, the result of
  \<open>Fetch\<close>, the warnings (empty for a source that is no \<open>Reporter\<close>), and the clock
  before and after the fetch.
\<close>

record fetched =
  fe_Name :: string
  fe_Result :: "error + membership list"
  fe_Warnings :: "string list"
  fe_started :: time
  fe_finished :: time

definition New :: "store \<Rightarrow> duration \<Rightarrow> string \<Rightarrow> (string \<times> floor) list \<Rightarrow> (string \<times> bool) list \<Rightarrow> syncer" where
  "New store interval snapshot floors exclude =
     \<lparr>sy_store = store, sy_interval = interval, sy_snapshot = snapshot, sy_floors = floors,
      sy_exclude = exclude, sy_lastGood = [], sy_status = []\<rparr>"

section \<open>Fetching one source\<close>

definition distinctTeams :: "membership list \<Rightarrow> nat" where
  "distinctTeams memberships = length (remdups (map ms_Team memberships))"

definition ensureStatus :: "syncer \<Rightarrow> string \<Rightarrow> source_status" where
  "ensureStatus s name =
     (case map_of (sy_status s) name of
        None \<Rightarrow> \<lparr>ss_Name = name, ss_LastAttempt = zero_time, ss_LastSuccess = zero_time,
                 ss_LastError = [], ss_Members = 0, ss_Teams = 0, ss_Warnings = []\<rparr>
      | Some st \<Rightarrow> st)"

definition lastGoodFor :: "syncer \<Rightarrow> string \<Rightarrow> membership list" where
  "lastGoodFor s name = (case map_of (sy_lastGood s) name of None \<Rightarrow> [] | Some ms \<Rightarrow> ms)"

definition floor_for :: "syncer \<Rightarrow> string \<Rightarrow> floor" where
  "floor_for s name =
     (case map_of (sy_floors s) name of None \<Rightarrow> \<lparr>fl_MinMembers = 0, fl_MinTeams = 0\<rparr> | Some f \<Rightarrow> f)"

definition keeping_last_good :: string where
  "keeping_last_good = [CHR '' '', CHR 0xE2, CHR 0x80, CHR 0x94] @ '' keeping last good''"

definition below_member_floor :: "nat \<Rightarrow> int \<Rightarrow> error" where
  "below_member_floor members floor =
     ''fetched '' @ show_nat members @ '' members, below floor of '' @ show_int floor @ keeping_last_good"

definition below_team_floor :: "nat \<Rightarrow> nat \<Rightarrow> int \<Rightarrow> error" where
  "below_team_floor members teams floor =
     ''fetched '' @ show_nat members @ '' members across '' @ show_nat teams @
     '' teams, below floor of '' @ show_int floor @ '' teams'' @ keeping_last_good"

definition set_status :: "string \<Rightarrow> source_status \<Rightarrow> syncer \<Rightarrow> syncer" where
  "set_status name st s = s\<lparr>sy_status := put name st (sy_status s)\<rparr>"

definition fetchOne :: "fetched \<Rightarrow> syncer \<Rightarrow> (membership list \<times> bool) \<times> syncer" where
  "fetchOne src s =
     (let name = fe_Name src;
          status = (ensureStatus s name)
            \<lparr>ss_LastAttempt := fe_started src, ss_Warnings := fe_Warnings src\<rparr>
      in case fe_Result src of
           Inl err \<Rightarrow> ((lastGoodFor s name, False), set_status name (status\<lparr>ss_LastError := err\<rparr>) s)
         | Inr memberships \<Rightarrow>
             let floor = floor_for s name; members = length memberships; teams = distinctTeams memberships
             in if fl_MinMembers floor > 0 \<and> int members < fl_MinMembers floor then
                  ((lastGoodFor s name, False),
                   set_status name (status\<lparr>ss_LastError := below_member_floor members (fl_MinMembers floor)\<rparr>) s)
                else if fl_MinTeams floor > 0 \<and> int teams < fl_MinTeams floor then
                  ((lastGoodFor s name, False),
                   set_status name (status\<lparr>ss_LastError := below_team_floor members teams (fl_MinTeams floor)\<rparr>) s)
                else
                  ((memberships, True),
                   set_status name (status\<lparr>ss_LastError := [], ss_LastSuccess := fe_finished src,
                       ss_Members := members, ss_Teams := teams\<rparr>)
                     (s\<lparr>sy_lastGood := put name memberships (sy_lastGood s)\<rparr>)))"

text \<open>\<open>Statuses\<close> lists the status map in its iteration order.\<close>

definition Statuses :: "syncer \<Rightarrow> source_status list" where
  "Statuses s = map snd (sy_status s)"

section \<open>The sync\<close>

text \<open>
  What the goroutines have merged so far: the rows, whether any source was fresh, and the
  starved sources, beside the state of the syncer.
\<close>

record merged =
  mg_all :: "membership list"
  mg_anyFresh :: bool
  mg_starved :: "string list"

definition merge_source :: "syncer \<times> merged \<Rightarrow> fetched \<Rightarrow> syncer \<times> merged" where
  "merge_source acc src =
     (case acc of (s, mg) \<Rightarrow>
      case fetchOne src s of ((memberships, fresh), s') \<Rightarrow>
        (s', \<lparr>mg_all = mg_all mg @ memberships,
              mg_anyFresh = (mg_anyFresh mg \<or> fresh),
              mg_starved = (if \<not> fresh \<and> memberships = [] then mg_starved mg @ [fe_Name src]
                            else mg_starved mg)\<rparr>))"

definition nothing_merged :: merged where
  "nothing_merged = \<lparr>mg_all = [], mg_anyFresh = False, mg_starved = []\<rparr>"

definition fetch_all :: "fetched list \<Rightarrow> syncer \<Rightarrow> syncer \<times> merged" where
  "fetch_all srcs s = foldl merge_source (s, nothing_merged) srcs"

definition drop_excluded :: "syncer \<Rightarrow> membership list \<Rightarrow> membership list" where
  "drop_excluded s all =
     (if sy_exclude s \<noteq> []
      then filter (\<lambda>m. map_of (sy_exclude s) (toLower (ms_Handle m)) \<noteq> Some True) all
      else all)"

text \<open>
  What \<open>Sync\<close> does once every goroutine is done. It gives the index it built, the syncer, and
  the states the file system goes through while the snapshot is saved (none when it is not). An
  error of \<open>Save\<close> is only logged.
\<close>

definition finish_sync :: "time \<Rightarrow> write_env \<Rightarrow> merged \<Rightarrow> syncer \<Rightarrow> fs \<Rightarrow> index \<times> syncer \<times> fs list" where
  "finish_sync now env mg s fs =
     (let starved = sortStrings (mg_starved mg);
          idx = Build now (drop_excluded s (mg_all mg))
      in if starved \<noteq> [] \<and> Store_Get (sy_store s) \<noteq> None then (idx, s, [])
         else
           let s = (if ix_Teams idx \<noteq> [] \<or> Store_Get (sy_store s) = None
                    then s\<lparr>sy_store := Store_Set (sy_store s) idx\<rparr> else s)
           in if mg_anyFresh mg \<and> ix_Teams idx \<noteq> [] \<and> starved = []
              then (idx, s, snd (Save env idx (sy_snapshot s) fs))
              else (idx, s, []))"

definition Sync :: "time \<Rightarrow> write_env \<Rightarrow> fetched list \<Rightarrow> syncer \<Rightarrow> fs \<Rightarrow> index \<times> syncer \<times> fs list" where
  "Sync now env srcs s fs = (case fetch_all srcs s of (s, mg) \<Rightarrow> finish_sync now env mg s fs)"

section \<open>Recovery\<close>

definition group_by_source :: "membership list \<Rightarrow> (string \<times> membership list) list" where
  "group_by_source rows =
     foldl (\<lambda>bySource m. put (ms_Source m)
         ((case map_of bySource (ms_Source m) of None \<Rightarrow> [] | Some ms \<Rightarrow> ms) @ [m]) bySource) [] rows"

definition restoreLastGood :: "index \<Rightarrow> syncer \<Rightarrow> syncer" where
  "restoreLastGood snap s =
     s\<lparr>sy_lastGood := foldl (\<lambda>lastGood (name, memberships). put name memberships lastGood)
         (sy_lastGood s) (group_by_source (Memberships snap))\<rparr>"

definition Seed :: "index option \<Rightarrow> syncer \<Rightarrow> syncer" where
  "Seed idx s =
     (case idx of
        None \<Rightarrow> s
      | Some i \<Rightarrow>
          if ix_Teams i = [] then s
          else restoreLastGood i (s\<lparr>sy_store := Store_Set (sy_store s) i\<rparr>))"

text \<open>
  \<open>Start\<close> up to the first sync: a snapshot file that can be read takes the place of what
  \<open>Seed\<close> put there.
\<close>

definition recover :: "error option \<Rightarrow> syncer \<Rightarrow> fs \<Rightarrow> syncer" where
  "recover read_err s fs =
     (case LoadSnapshot read_err (sy_snapshot s) fs of
        Inl _ \<Rightarrow> s
      | Inr None \<Rightarrow> s
      | Inr (Some snap) \<Rightarrow> restoreLastGood snap (s\<lparr>sy_store := Store_Set (sy_store s) snap\<rparr>))"

definition Start ::
    "error option \<Rightarrow> time \<Rightarrow> write_env \<Rightarrow> fetched list \<Rightarrow> syncer \<Rightarrow> fs \<Rightarrow> index \<times> syncer \<times> fs list" where
  "Start read_err now env srcs s fs = Sync now env srcs (recover read_err s fs) fs"

section \<open>The refresh loop\<close>

text \<open>
  The loop after \<open>Start\<close>: a tick syncs, \<open>Stop\<close> (or a cancelled context) ends the
  goroutine. The Boolean says whether it still runs.
\<close>

inductive loop_step :: "syncer \<times> fs \<times> bool \<Rightarrow> syncer \<times> fs \<times> bool \<Rightarrow> bool" where
  tick: "Sync now env srcs s fs = (idx, s', states) \<Longrightarrow>
     loop_step (s, fs, True) (s', final_state fs states, True)"
| stop: "loop_step (s, fs, True) (s, fs, False)"

inductive_cases loop_stepE: "loop_step (s, fs, running) (s', fs', running')"

section \<open>What a source contributes\<close>

text \<open>The rows a fetch brought, if it succeeded and passes both floors.\<close>

definition accepted :: "syncer \<Rightarrow> fetched \<Rightarrow> membership list option" where
  "accepted s src =
     (case fe_Result src of
        Inl _ \<Rightarrow> None
      | Inr ms \<Rightarrow>
          if (fl_MinMembers (floor_for s (fe_Name src)) > 0 \<and>
              int (length ms) < fl_MinMembers (floor_for s (fe_Name src))) \<or>
             (fl_MinTeams (floor_for s (fe_Name src)) > 0 \<and>
              int (distinctTeams ms) < fl_MinTeams (floor_for s (fe_Name src)))
          then None else Some ms)"

definition contribution :: "syncer \<Rightarrow> fetched \<Rightarrow> membership list" where
  "contribution s src =
     (case accepted s src of Some ms \<Rightarrow> ms | None \<Rightarrow> lastGoodFor s (fe_Name src))"

definition is_starved :: "syncer \<Rightarrow> fetched \<Rightarrow> bool" where
  "is_starved s src \<longleftrightarrow> accepted s src = None \<and> lastGoodFor s (fe_Name src) = []"

lemma set_status_simps [simp]:
  "sy_store (set_status name st s) = sy_store s" "sy_lastGood (set_status name st s) = sy_lastGood s"
  "sy_floors (set_status name st s) = sy_floors s" "sy_exclude (set_status name st s) = sy_exclude s"
  "sy_snapshot (set_status name st s) = sy_snapshot s" "sy_interval (set_status name st s) = sy_interval s"
  by (simp_all add: set_status_def)

lemma fetchOne_result:
  "fst (fetchOne src s) = (contribution s src, accepted s src \<noteq> None)"
  by (auto simp: fetchOne_def contribution_def accepted_def Let_def split: sum.split)

lemma fetchOne_frame [simp]:
  "sy_store (snd (fetchOne src s)) = sy_store s" "sy_floors (snd (fetchOne src s)) = sy_floors s"
  "sy_exclude (snd (fetchOne src s)) = sy_exclude s" "sy_snapshot (snd (fetchOne src s)) = sy_snapshot s"
  "sy_interval (snd (fetchOne src s)) = sy_interval s"
  by (auto simp: fetchOne_def Let_def split: sum.split)

lemma fetchOne_lastGood:
  "sy_lastGood (snd (fetchOne src s)) =
     (case accepted s src of None \<Rightarrow> sy_lastGood s | Some ms \<Rightarrow> put (fe_Name src) ms (sy_lastGood s))"
  by (auto simp: fetchOne_def accepted_def Let_def split: sum.split)

text \<open>The status a fetch leaves depends on the old status of the same source only.\<close>

definition status_after :: "syncer \<Rightarrow> fetched \<Rightarrow> source_status" where
  "status_after s src = the (map_of (sy_status (snd (fetchOne src s))) (fe_Name src))"

lemma fetchOne_status:
  "sy_status (snd (fetchOne src s)) = put (fe_Name src) (status_after s src) (sy_status s)"
  by (auto simp: status_after_def fetchOne_def Let_def set_status_def gomap_simps split: sum.split)

lemma status_after_cong:
  "map_of (sy_status s) (fe_Name src) = map_of (sy_status t) (fe_Name src) \<Longrightarrow>
   sy_floors s = sy_floors t \<Longrightarrow> status_after s src = status_after t src"
  by (auto simp: status_after_def fetchOne_def Let_def set_status_def gomap_simps ensureStatus_def
      floor_for_def split: sum.split)

lemma accepted_cong: "sy_floors s = sy_floors t \<Longrightarrow> accepted s src = accepted t src"
proof -
  assume "sy_floors s = sy_floors t"
  then have "floor_for s = floor_for t"
    by (simp add: floor_for_def fun_eq_iff)
  then show ?thesis
    unfolding accepted_def by (rule arg_cong)
qed

lemma contribution_cong:
  "sy_floors s = sy_floors t \<Longrightarrow>
   map_of (sy_lastGood s) (fe_Name src) = map_of (sy_lastGood t) (fe_Name src) \<Longrightarrow>
   contribution s src = contribution t src"
  using accepted_cong [of s t src] by (simp add: contribution_def lastGoodFor_def split: option.split)

lemma is_starved_cong:
  "sy_floors s = sy_floors t \<Longrightarrow>
   map_of (sy_lastGood s) (fe_Name src) = map_of (sy_lastGood t) (fe_Name src) \<Longrightarrow>
   is_starved s src = is_starved t src"
  using accepted_cong [of s t src] by (simp add: is_starved_def lastGoodFor_def)

section \<open>The goroutines together\<close>

lemma merge_source_eq:
  "merge_source (s, mg) src =
     (snd (fetchOne src s),
      \<lparr>mg_all = mg_all mg @ contribution s src,
       mg_anyFresh = (mg_anyFresh mg \<or> accepted s src \<noteq> None),
       mg_starved = mg_starved mg @ (if is_starved s src then [fe_Name src] else [])\<rparr>)"
  using fetchOne_result [of src s]
  by (cases "fetchOne src s") (auto simp: merge_source_def is_starved_def contribution_def split: prod.splits)

lemma other_source:
  assumes "fe_Name src' \<noteq> fe_Name src"
  shows "contribution (snd (fetchOne src s)) src' = contribution s src'"
    and "accepted (snd (fetchOne src s)) src' = accepted s src'"
    and "is_starved (snd (fetchOne src s)) src' = is_starved s src'"
    and "status_after (snd (fetchOne src s)) src' = status_after s src'"
  using assms
  by (auto intro!: contribution_cong accepted_cong is_starved_cong status_after_cong
      simp: fetchOne_lastGood fetchOne_status gomap_simps split: option.split)

text \<open>
  With distinct source names the merged result is what each source contributes on its own,
  concatenated in the order of completion.
\<close>

lemma fold_merge_source:
  "distinct (map fe_Name srcs) \<Longrightarrow>
   snd (foldl merge_source (s, mg) srcs) =
     \<lparr>mg_all = mg_all mg @ concat (map (contribution s) srcs),
      mg_anyFresh = (mg_anyFresh mg \<or> (\<exists>src\<in>set srcs. accepted s src \<noteq> None)),
      mg_starved = mg_starved mg @ map fe_Name (filter (is_starved s) srcs)\<rparr>"
proof (induction srcs arbitrary: s mg)
  case Nil
  then show ?case by simp
next
  case (Cons src srcs)
  have other: "fe_Name src' \<noteq> fe_Name src" if "src' \<in> set srcs" for src'
    using Cons.prems that by (metis distinct.simps(2) image_eqI list.set_map list.simps(9))
  have "map (contribution (snd (fetchOne src s))) srcs = map (contribution s) srcs"
    "filter (is_starved (snd (fetchOne src s))) srcs = filter (is_starved s) srcs"
    "(\<exists>x\<in>set srcs. accepted (snd (fetchOne src s)) x \<noteq> None) = (\<exists>x\<in>set srcs. accepted s x \<noteq> None)"
    using other_source [OF other] by (auto intro: filter_cong)
  then show ?case
    using Cons.prems by (simp add: merge_source_eq Cons.IH cong: map_cong)
qed

lemma fold_merge_source_state:
  "fst (foldl merge_source (s, mg) srcs) = foldl (\<lambda>s src. snd (fetchOne src s)) s srcs"
  by (induction srcs arbitrary: s mg) (simp_all add: merge_source_eq)

lemma fold_fetch_frame [simp]:
  "sy_store (foldl (\<lambda>s src. snd (fetchOne src s)) s srcs) = sy_store s"
  "sy_floors (foldl (\<lambda>s src. snd (fetchOne src s)) s srcs) = sy_floors s"
  "sy_exclude (foldl (\<lambda>s src. snd (fetchOne src s)) s srcs) = sy_exclude s"
  "sy_snapshot (foldl (\<lambda>s src. snd (fetchOne src s)) s srcs) = sy_snapshot s"
  "sy_interval (foldl (\<lambda>s src. snd (fetchOne src s)) s srcs) = sy_interval s"
  by (induction srcs arbitrary: s) simp_all

lemma fold_fetch_lastGood:
  "distinct (map fe_Name srcs) \<Longrightarrow>
   map_of (sy_lastGood (foldl (\<lambda>s src. snd (fetchOne src s)) s srcs)) name =
     (case find (\<lambda>src. fe_Name src = name \<and> accepted s src \<noteq> None) srcs of
        None \<Rightarrow> map_of (sy_lastGood s) name | Some src \<Rightarrow> accepted s src)"
proof (induction srcs arbitrary: s)
  case Nil
  then show ?case by simp
next
  case (Cons src srcs)
  have acc: "accepted (snd (fetchOne src s)) x = accepted s x" for x
    by (rule accepted_cong) simp
  have none: "find (\<lambda>x. fe_Name x = fe_Name src \<and> accepted s x \<noteq> None) srcs = None"
    using Cons.prems by (auto simp: find_None_iff image_iff)
  show ?case
    using Cons.prems none
    by (auto simp: Cons.IH acc fetchOne_lastGood gomap_simps split: option.split)
qed

lemma find_SomeD': "find P xs = Some x \<Longrightarrow> P x \<and> x \<in> set xs"
  by (auto simp: find_Some_iff)

lemma fold_fetch_status:
  "distinct (map fe_Name srcs) \<Longrightarrow>
   map_of (sy_status (foldl (\<lambda>s src. snd (fetchOne src s)) s srcs)) name =
     (case find (\<lambda>src. fe_Name src = name) srcs of
        None \<Rightarrow> map_of (sy_status s) name | Some src \<Rightarrow> Some (status_after s src))"
proof (induction srcs arbitrary: s)
  case Nil
  then show ?case by simp
next
  case (Cons src srcs)
  have none: "find (\<lambda>x. fe_Name x = fe_Name src) srcs = None"
    using Cons.prems by (auto simp: find_None_iff image_iff)
  have after: "status_after (snd (fetchOne src s)) x = status_after s x" if "fe_Name x \<noteq> fe_Name src" for x
    by (rule other_source(4) [OF that])
  show ?case
    using Cons.prems none after
    by (auto simp: Cons.IH fetchOne_status gomap_simps dest!: find_SomeD' split: option.split)
qed

lemma fetch_all_eq:
  "distinct (map fe_Name srcs) \<Longrightarrow>
   fetch_all srcs s =
     (foldl (\<lambda>s src. snd (fetchOne src s)) s srcs,
      \<lparr>mg_all = concat (map (contribution s) srcs),
       mg_anyFresh = (\<exists>src\<in>set srcs. accepted s src \<noteq> None),
       mg_starved = map fe_Name (filter (is_starved s) srcs)\<rparr>)"
  by (simp add: fetch_all_def nothing_merged_def prod_eq_iff fold_merge_source fold_merge_source_state)


section \<open>The sync as a whole\<close>

definition contributed :: "syncer \<Rightarrow> fetched list \<Rightarrow> membership list" where
  "contributed s srcs = drop_excluded s (concat (map (contribution s) srcs))"

definition any_starved :: "syncer \<Rightarrow> fetched list \<Rightarrow> bool" where
  "any_starved s srcs \<longleftrightarrow> (\<exists>src\<in>set srcs. is_starved s src)"

definition any_fresh :: "syncer \<Rightarrow> fetched list \<Rightarrow> bool" where
  "any_fresh s srcs \<longleftrightarrow> (\<exists>src\<in>set srcs. accepted s src \<noteq> None)"

abbreviation after_fetches :: "fetched list \<Rightarrow> syncer \<Rightarrow> syncer" where
  "after_fetches srcs s \<equiv> foldl (\<lambda>s src. snd (fetchOne src s)) s srcs"

lemma Sync_eq:
  assumes "distinct (map fe_Name srcs)"
  shows "Sync now env srcs s fs =
    (let idx = Build now (contributed s srcs); s' = after_fetches srcs s
     in if any_starved s srcs \<and> Store_Get (sy_store s) \<noteq> None then (idx, s', [])
        else
          let s'' = (if ix_Teams idx \<noteq> [] \<or> Store_Get (sy_store s) = None
                     then s'\<lparr>sy_store := Store_Set (sy_store s) idx\<rparr> else s')
          in if any_fresh s srcs \<and> ix_Teams idx \<noteq> [] \<and> \<not> any_starved s srcs
             then (idx, s'', snd (Save env idx (sy_snapshot s) fs))
             else (idx, s'', []))"
proof -
  have "sort (map fe_Name (filter (is_starved s) srcs)) = [] \<longleftrightarrow> \<not> any_starved s srcs"
    by (metis any_starved_def filter_empty_conv length_0_conv length_map length_sort)
  then show ?thesis
    by (simp add: Sync_def finish_sync_def fetch_all_eq [OF assms] contributed_def drop_excluded_def any_fresh_def Let_def
        cong: if_cong)
qed

lemma Sync_index:
  "distinct (map fe_Name srcs) \<Longrightarrow> fst (Sync now env srcs s fs) = Build now (contributed s srcs)"
  by (auto simp: Sync_eq Let_def)

lemma Sync_store:
  "distinct (map fe_Name srcs) \<Longrightarrow>
   sy_store (fst (snd (Sync now env srcs s fs))) =
     (if (any_starved s srcs \<and> Store_Get (sy_store s) \<noteq> None) \<or>
         (ix_Teams (Build now (contributed s srcs)) = [] \<and> Store_Get (sy_store s) \<noteq> None)
      then sy_store s else Store_Set (sy_store s) (Build now (contributed s srcs)))"
  by (auto simp: Sync_eq Let_def)

lemma Sync_disk:
  "distinct (map fe_Name srcs) \<Longrightarrow>
   snd (snd (Sync now env srcs s fs)) =
     (if any_fresh s srcs \<and> ix_Teams (Build now (contributed s srcs)) \<noteq> [] \<and> \<not> any_starved s srcs
      then snd (Save env (Build now (contributed s srcs)) (sy_snapshot s) fs) else [])"
  by (auto simp: Sync_eq Let_def)

lemma Sync_maps:
  "distinct (map fe_Name srcs) \<Longrightarrow>
   sy_lastGood (fst (snd (Sync now env srcs s fs))) = sy_lastGood (after_fetches srcs s) \<and>
   sy_status (fst (snd (Sync now env srcs s fs))) = sy_status (after_fetches srcs s)"
  by (auto simp: Sync_eq Let_def)

lemma in_contributed:
  "m \<in> set (contributed s srcs) \<longleftrightarrow>
     (\<exists>src\<in>set srcs. m \<in> set (contribution s src)) \<and>
     (sy_exclude s \<noteq> [] \<longrightarrow> map_of (sy_exclude s) (toLower (ms_Handle m)) \<noteq> Some True)"
  by (auto simp: contributed_def drop_excluded_def)

section \<open>The order in which the sources complete\<close>

text \<open>Two indexes with the same people, on the same teams, with the same provenance.\<close>

definition same_people :: "index \<Rightarrow> index \<Rightarrow> bool" where
  "same_people i j \<longleftrightarrow>
     (\<forall>slug key. rel_option (\<lambda>m n. mb_Sources m = mb_Sources n \<and> mb_Orgs m = mb_Orgs n)
        (find_member i slug key) (find_member j slug key))"

lemma member_spec_same_set:
  assumes "set rows = set rows'"
  shows "rel_option (\<lambda>m n. mb_Sources m = mb_Sources n \<and> mb_Orgs m = mb_Orgs n)
    (member_spec rows) (member_spec rows')"
proof -
  have "ms_Source ` set rows = ms_Source ` set rows'" and "ms_Org ` set rows = ms_Org ` set rows'"
    and "rows = [] \<longleftrightarrow> rows' = []"
    using assms by auto
  then show ?thesis
    by (auto simp: member_spec_def split: list.split simp del: list.set)
qed

lemma Build_same_people: "set rows = set rows' \<Longrightarrow> same_people (Build t rows) (Build t' rows')"
  by (simp add: same_people_def Build_find_member member_spec_same_set rows_for_def)

lemma has_team_Build: "has_team (Build t rows) slug \<longleftrightarrow> (\<exists>key. rows_for slug key rows \<noteq> [])"
  by (auto simp: has_team_def Build_find_member member_spec_def split: list.splits)

lemma index_empty_iff: "index_shape i \<Longrightarrow> ix_Teams i = [] \<longleftrightarrow> (\<forall>slug. \<not> has_team i slug)"
proof -
  assume i: "index_shape i"
  have "ix_Teams i = [] \<longleftrightarrow> (\<forall>slug. slug \<notin> keys_of (ix_Teams i))"
    by (cases "ix_Teams i") auto
  then show ?thesis
    by (simp only: slug_has_team [OF i])
qed

lemma Build_empty_iff: "ix_Teams (Build t rows) = [] \<longleftrightarrow> (\<forall>slug key. rows_for slug key rows = [])"
  by (simp add: index_empty_iff Build_index_shape has_team_Build)

lemma Build_empty_same_set:
  "set rows = set rows' \<Longrightarrow> ix_Teams (Build t rows) = [] \<longleftrightarrow> ix_Teams (Build t' rows') = []"
  by (simp add: Build_empty_iff rows_for_def filter_empty_conv)

lemma set_contributed_perm: "mset srcs = mset srcs' \<Longrightarrow> set (contributed s srcs) = set (contributed s srcs')"
  by (auto simp: in_contributed dest: mset_eq_setD)

lemma find_unique:
  assumes "mset xs = mset ys" and "\<And>x y. x \<in> set xs \<Longrightarrow> y \<in> set xs \<Longrightarrow> P x \<Longrightarrow> P y \<Longrightarrow> x = y"
  shows "find P xs = find P ys"
proof -
  have sets: "set xs = set ys"
    using assms(1) by (rule mset_eq_setD)
  show ?thesis
  proof (cases "find P xs")
    case None
    then have "find P ys = None"
      using sets by (simp add: find_None_iff)
    with None show ?thesis by simp
  next
    case (Some x)
    then have x: "P x" "x \<in> set xs"
      by (auto dest: find_SomeD')
    then obtain y where y: "find P ys = Some y"
      using sets by (cases "find P ys") (auto simp: find_None_iff)
    then have "P y" "y \<in> set xs"
      using sets by (auto dest: find_SomeD')
    with x y Some assms(2) show ?thesis by auto
  qed
qed

lemma distinct_names_unique:
  "distinct (map fe_Name srcs) \<Longrightarrow> x \<in> set srcs \<Longrightarrow> y \<in> set srcs \<Longrightarrow> fe_Name x = fe_Name y \<Longrightarrow> x = y"
  by (auto simp: distinct_map dest: inj_onD)

lemma after_fetches_perm:
  assumes "distinct (map fe_Name srcs)" and "mset srcs = mset srcs'"
  shows "map_of (sy_lastGood (after_fetches srcs s)) = map_of (sy_lastGood (after_fetches srcs' s))"
    and "map_of (sy_status (after_fetches srcs s)) = map_of (sy_status (after_fetches srcs' s))"
proof -
  have dist': "distinct (map fe_Name srcs')"
    using assms by (metis mset_map mset_eq_imp_distinct_iff)
  have "find (\<lambda>src. fe_Name src = name \<and> accepted s src \<noteq> None) srcs =
      find (\<lambda>src. fe_Name src = name \<and> accepted s src \<noteq> None) srcs'"
    and "find (\<lambda>src. fe_Name src = name) srcs = find (\<lambda>src. fe_Name src = name) srcs'" for name
    using distinct_names_unique [OF assms(1)] by (auto intro!: find_unique [OF assms(2)])
  then show "map_of (sy_lastGood (after_fetches srcs s)) = map_of (sy_lastGood (after_fetches srcs' s))"
    and "map_of (sy_status (after_fetches srcs s)) = map_of (sy_status (after_fetches srcs' s))"
    by (simp_all add: fun_eq_iff fold_fetch_lastGood [OF assms(1)] fold_fetch_lastGood [OF dist']
        fold_fetch_status [OF assms(1)] fold_fetch_status [OF dist'])
qed

section \<open>Recovering the last good results\<close>

lemma group_by_source_fold:
  "map_of (foldl (\<lambda>bySource m. put (ms_Source m)
         ((case map_of bySource (ms_Source m) of None \<Rightarrow> [] | Some ms \<Rightarrow> ms) @ [m]) bySource) acc rows) name =
   (if filter (\<lambda>m. ms_Source m = name) rows = [] then map_of acc name
    else Some ((case map_of acc name of None \<Rightarrow> [] | Some ms \<Rightarrow> ms) @ filter (\<lambda>m. ms_Source m = name) rows))"
  by (induction rows arbitrary: acc) (auto simp: gomap_simps split: option.split)

lemma group_by_source_find:
  "map_of (group_by_source rows) name =
     (let ms = filter (\<lambda>m. ms_Source m = name) rows in if ms = [] then None else Some ms)"
  by (simp add: group_by_source_def group_by_source_fold Let_def)

lemma gomap_group_by_source: "gomap (group_by_source rows)"
proof -
  have "gomap acc \<Longrightarrow> gomap (foldl (\<lambda>bySource m. put (ms_Source m)
         ((case map_of bySource (ms_Source m) of None \<Rightarrow> [] | Some ms \<Rightarrow> ms) @ [m]) bySource) acc rows)" for acc
    by (induction rows arbitrary: acc) simp_all
  then show ?thesis by (simp add: group_by_source_def)
qed

lemma fold_put_override:
  "gomap m \<Longrightarrow> map_of (foldl (\<lambda>acc (k, v). put k v acc) acc m) k =
     (case map_of m k of None \<Rightarrow> map_of acc k | Some v \<Rightarrow> Some v)"
proof (induction m arbitrary: acc)
  case Nil
  then show ?case by simp
next
  case (Cons p m)
  obtain k' v where p: "p = (k', v)" by fastforce
  have "gomap m" and "map_of m k' = None"
    using Cons.prems by (simp_all add: p gomap_def map_of_eq_None_iff)
  then show ?case
    by (simp add: p Cons.IH gomap_simps split: option.split)
qed

lemma restoreLastGood_frame [simp]:
  "sy_store (restoreLastGood snap s) = sy_store s" "sy_floors (restoreLastGood snap s) = sy_floors s"
  "sy_exclude (restoreLastGood snap s) = sy_exclude s" "sy_snapshot (restoreLastGood snap s) = sy_snapshot s"
  "sy_status (restoreLastGood snap s) = sy_status s"
  by (simp_all add: restoreLastGood_def)

lemma lastGoodFor_restore:
  "lastGoodFor (restoreLastGood snap s) name =
     (let ms = filter (\<lambda>m. ms_Source m = name) (Memberships snap)
      in if ms = [] then lastGoodFor s name else ms)"
  by (simp add: lastGoodFor_def restoreLastGood_def fold_put_override gomap_group_by_source
      group_by_source_find Let_def)

lemma recover_no_file [simp]: "LoadSnapshot read_err (sy_snapshot s) fs = Inr None \<Longrightarrow> recover read_err s fs = s"
  by (simp add: recover_def)

lemma recover_frame [simp]:
  "sy_floors (recover read_err s fs) = sy_floors s" "sy_exclude (recover read_err s fs) = sy_exclude s"
  "sy_snapshot (recover read_err s fs) = sy_snapshot s" "sy_status (recover read_err s fs) = sy_status s"
  by (auto simp: recover_def split: sum.split option.split)

end
