(* ===== verification/Snapshot.thy ===== *)
theory Snapshot
  imports IndexSnapshot KeysCache Syncer "HOL-Library.Word"
begin

text \<open>
  Package \<open>internal/snapshot\<close>: what the writer publishes and every reader loads, and its
  JSON form, with the JSON form of a source status. A nil map of keys, a nil index and a
  nil slice of statuses are \<open>None\<close>. The generation is a 64-bit integer.
\<close>

record snapshot =
  sn_Generation :: "64 word"
  sn_GeneratedAt :: time
  sn_Index :: "index option"
  sn_Keys :: "(string \<times> entry) list option"
  sn_Sources :: "source_status list option"

section \<open>Source statuses\<close>

text \<open>
  The tag \<open>omitempty\<close> of \<open>LastSuccess\<close> has no effect on a struct, so the zero time
  is written.
\<close>

definition enc_status :: "source_status \<Rightarrow> json" where
  "enc_status st =
     JObj ([(''name'', JStr (ss_Name st)), (''lastAttempt'', JTime (ss_LastAttempt st)),
            (''lastSuccess'', JTime (ss_LastSuccess st))] @
           omit_if (ss_LastError st = []) ''lastError'' (JStr (ss_LastError st)) @
           [(''members'', JNum (int (ss_Members st))), (''teams'', JNum (int (ss_Teams st)))] @
           omit_if (ss_Warnings st = []) ''warnings'' (enc_slice JStr (ss_Warnings st)))"

text \<open>Counts are never negative; a document with a negative one is taken as ill-typed.\<close>

definition dec_count :: "json \<Rightarrow> nat option" where
  "dec_count j = Option.bind (dec_num j) (\<lambda>n. if 0 \<le> n then Some (nat n) else None)"

definition zero_status :: source_status where
  "zero_status = \<lparr>ss_Name = [], ss_LastAttempt = zero_time, ss_LastSuccess = zero_time,
     ss_LastError = [], ss_Members = 0, ss_Teams = 0, ss_Warnings = []\<rparr>"

fun dec_status :: "json \<Rightarrow> source_status option" where
  "dec_status (JObj kvs) =
     Option.bind (dec_str (field kvs ''name'')) (\<lambda>name.
     Option.bind (dec_time (field kvs ''lastAttempt'')) (\<lambda>lastAttempt.
     Option.bind (dec_time (field kvs ''lastSuccess'')) (\<lambda>lastSuccess.
     Option.bind (dec_str (field kvs ''lastError'')) (\<lambda>lastError.
     Option.bind (dec_count (field kvs ''members'')) (\<lambda>members.
     Option.bind (dec_count (field kvs ''teams'')) (\<lambda>teams.
     Option.bind (dec_list dec_str (field kvs ''warnings'')) (\<lambda>warnings.
     Some \<lparr>ss_Name = name, ss_LastAttempt = lastAttempt, ss_LastSuccess = lastSuccess,
           ss_LastError = lastError, ss_Members = members, ss_Teams = teams, ss_Warnings = warnings\<rparr>)))))))"
| "dec_status JNull = Some zero_status"
| "dec_status _ = None"

interpretation status_codec: codec "\<lambda>_. True" enc_status dec_status "\<lambda>st. st"
  by unfold_locales (auto simp: enc_status_def field_def omit_if_def dec_count_def)

section \<open>Snapshots\<close>

definition enc_int64 :: "64 word \<Rightarrow> json" where
  "enc_int64 w = JNum (sint w)"

definition dec_int64 :: "json \<Rightarrow> 64 word option" where
  "dec_int64 j = Option.bind (dec_num j)
     (\<lambda>n. if - (2 ^ 63) \<le> n \<and> n < 2 ^ 63 then Some (word_of_int n) else None)"

lemma int64_roundtrip [simp]: "dec_int64 (enc_int64 w) = Some w"
  using sint_greater_eq [of w] sint_less [of w] by (simp add: enc_int64_def dec_int64_def)

definition enc_nullable :: "('a \<Rightarrow> json) \<Rightarrow> 'a option \<Rightarrow> json" where
  "enc_nullable enc x = (case x of None \<Rightarrow> JNull | Some v \<Rightarrow> enc v)"

definition dec_nullable :: "(json \<Rightarrow> 'a option) \<Rightarrow> json \<Rightarrow> 'a option option" where
  "dec_nullable dec j = (if j = JNull then Some None else map_option Some (dec j))"

definition enc_snapshot :: "snapshot \<Rightarrow> json" where
  "enc_snapshot s =
     JObj [(''generation'', enc_int64 (sn_Generation s)), (''generatedAt'', JTime (sn_GeneratedAt s)),
           (''index'', enc_nullable enc_index (sn_Index s)),
           (''keys'', enc_nullable (enc_map enc_key_entry) (sn_Keys s)),
           (''sources'', enc_nullable (enc_list enc_status) (sn_Sources s))]"

fun dec_snapshot :: "json \<Rightarrow> snapshot option" where
  "dec_snapshot (JObj kvs) =
     Option.bind (dec_int64 (field kvs ''generation'')) (\<lambda>generation.
     Option.bind (dec_time (field kvs ''generatedAt'')) (\<lambda>generatedAt.
     Option.bind (dec_nullable dec_index (field kvs ''index'')) (\<lambda>idx.
     Option.bind (dec_nullable (dec_map dec_key_entry) (field kvs ''keys'')) (\<lambda>ks.
     Option.bind (dec_nullable (dec_list dec_status) (field kvs ''sources'')) (\<lambda>sources.
     Some \<lparr>sn_Generation = generation, sn_GeneratedAt = generatedAt, sn_Index = idx, sn_Keys = ks,
           sn_Sources = sources\<rparr>)))))"
| "dec_snapshot JNull = Some \<lparr>sn_Generation = 0, sn_GeneratedAt = zero_time, sn_Index = None,
     sn_Keys = None, sn_Sources = None\<rparr>"
| "dec_snapshot _ = None"

text \<open>
  \<open>Marshal\<close> and \<open>Unmarshal\<close>. \<open>json.Marshal\<close> has no way to fail on these types;
  its error is an argument all the same.
\<close>

definition Marshal :: "error option \<Rightarrow> snapshot \<Rightarrow> error + document" where
  "Marshal err s =
     (case err of Some e \<Rightarrow> Inl (''marshal snapshot: '' @ e) | None \<Rightarrow> Inr (Doc (enc_snapshot s)))"

definition Unmarshal :: "document \<Rightarrow> error + snapshot" where
  "Unmarshal data =
     (case Option.bind (parse_document data) dec_snapshot of
        None \<Rightarrow> Inl ''unmarshal snapshot'' | Some s \<Rightarrow> Inr s)"

definition norm_snapshot :: "snapshot \<Rightarrow> snapshot" where
  "norm_snapshot s =
     s\<lparr>sn_Index := map_option norm_index (sn_Index s),
       sn_Keys := map_option (sorted_map (\<lambda>e. e)) (sn_Keys s)\<rparr>"

lemma enc_objects_not_null [simp]: "enc_index i \<noteq> JNull" "enc_map enc m \<noteq> JNull"
  "enc_list enc xs \<noteq> JNull"
  by (simp_all add: enc_index_def enc_map_def enc_list_def)

interpretation snapshot_codec: codec "\<lambda>_. True" enc_snapshot dec_snapshot norm_snapshot
proof unfold_locales
  fix s :: snapshot
  have keys: "dec_nullable (dec_map dec_key_entry) (enc_nullable (enc_map enc_key_entry) k) =
      Some (map_option (sorted_map (\<lambda>e. e)) k)" for k
    by (cases k) (simp_all add: dec_nullable_def enc_nullable_def entry_codec.dec_map_enc list_all_iff)
  have idx: "dec_nullable dec_index (enc_nullable enc_index i) = Some (map_option norm_index i)" for i
    by (cases i) (simp_all add: dec_nullable_def enc_nullable_def index_codec.dec_enc)
  have srcs: "dec_nullable (dec_list dec_status) (enc_nullable (enc_list enc_status) ss) = Some ss" for ss
    by (cases ss) (simp_all add: dec_nullable_def enc_nullable_def status_codec.dec_list_enc list_all_iff)
  show "dec_snapshot (enc_snapshot s) = Some (norm_snapshot s)"
    by (simp add: enc_snapshot_def field_def keys idx srcs norm_snapshot_def)
  have "enc_map enc_key_entry (sorted_map (\<lambda>e. e) m) = enc_map enc_key_entry m" for m
    by (rule entry_codec.enc_sorted_map) (simp add: list_all_iff)
  then show "enc_snapshot (norm_snapshot s) = enc_snapshot s"
    by (cases "sn_Index s"; cases "sn_Keys s")
      (simp_all add: enc_snapshot_def norm_snapshot_def enc_nullable_def index_codec.enc_norm)
qed simp_all

lemma Unmarshal_Marshal: "Marshal None s = Inr data \<Longrightarrow> Unmarshal data = Inr (norm_snapshot s)"
  by (auto simp: Marshal_def Unmarshal_def snapshot_codec.dec_enc)

end
