(* ===== verification/PgStore.thy ===== *)
theory PgStore
  imports Snapshot
begin

text \<open>
  Package \<open>internal/store\<close>: the single-row table that holds the published snapshot. What
  Postgres answers to a statement is an argument: it is carried out, refused, or carried out with
  the reply lost.
\<close>

section \<open>The table\<close>

record row =
  pr_Generation :: "64 word"
  pr_Data :: document
  pr_UpdatedAt :: time

datatype db = No_table | Table "row option"

datatype pg_answer = Answered | Refused error | Reply_lost error

definition missing_relation :: error where
  "missing_relation = ''relation coredevs_snapshot does not exist''"

definition Pg_ensureSchema :: "pg_answer \<Rightarrow> db \<Rightarrow> error option \<times> db" where
  "Pg_ensureSchema ans db =
     (let created = (case db of No_table \<Rightarrow> Table None | Table r \<Rightarrow> Table r)
      in case ans of
           Answered \<Rightarrow> (None, created)
         | Refused e \<Rightarrow> (Some (''ensure schema: '' @ e), db)
         | Reply_lost e \<Rightarrow> (Some (''ensure schema: '' @ e), created))"

text \<open>
  \<open>dsn_err\<close> and \<open>connect_err\<close> are the answers of \<open>pgxpool.ParseConfig\<close> and
  \<open>pgxpool.NewWithConfig\<close>.
\<close>

definition Pg_New :: "error option \<Rightarrow> error option \<Rightarrow> pg_answer \<Rightarrow> db \<Rightarrow> error option \<times> db" where
  "Pg_New dsn_err connect_err ans db =
     (case dsn_err of
        Some e \<Rightarrow> (Some (''parse postgres dsn: '' @ e), db)
      | None \<Rightarrow>
          case connect_err of
            Some e \<Rightarrow> (Some (''connect postgres: '' @ e), db)
          | None \<Rightarrow> Pg_ensureSchema ans db)"

definition Pg_Save :: "pg_answer \<Rightarrow> time \<Rightarrow> 64 word \<Rightarrow> document \<Rightarrow> db \<Rightarrow> error option \<times> db" where
  "Pg_Save ans now generation data db =
     (case db of
        No_table \<Rightarrow> (Some (''save snapshot: '' @ missing_relation), db)
      | Table r \<Rightarrow>
          let upserted = Table (Some \<lparr>pr_Generation = generation, pr_Data = data, pr_UpdatedAt = now\<rparr>)
          in case ans of
               Answered \<Rightarrow> (None, upserted)
             | Refused e \<Rightarrow> (Some (''save snapshot: '' @ e), db)
             | Reply_lost e \<Rightarrow> (Some (''save snapshot: '' @ e), upserted))"

text \<open>A query: an error, no row, or the row.\<close>

definition query_row :: "string \<Rightarrow> pg_answer \<Rightarrow> db \<Rightarrow> error + row option" where
  "query_row what ans db =
     (case ans of
        Refused e \<Rightarrow> Inl (what @ e)
      | Reply_lost e \<Rightarrow> Inl (what @ e)
      | Answered \<Rightarrow> (case db of No_table \<Rightarrow> Inl (what @ missing_relation) | Table r \<Rightarrow> Inr r))"

definition Pg_Generation :: "pg_answer \<Rightarrow> db \<Rightarrow> error + (64 word) option" where
  "Pg_Generation ans db =
     (case query_row ''read snapshot generation: '' ans db of
        Inl e \<Rightarrow> Inl e | Inr r \<Rightarrow> Inr (map_option pr_Generation r))"

definition Pg_Load :: "pg_answer \<Rightarrow> db \<Rightarrow> error + row option" where
  "Pg_Load ans db = query_row ''load snapshot: '' ans db"

section \<open>The contract\<close>

text \<open>
  A store of one versioned blob, as the writer and the readers use it. \<open>view\<close> is what a
  healthy connection reads. A save that reports an error may or may not have taken effect, but the
  blob is the old one or the new one, whole.
\<close>

locale snapshot_store =
  fixes save :: "'ans \<Rightarrow> time \<Rightarrow> 'gen \<Rightarrow> 'data \<Rightarrow> 'db \<Rightarrow> error option \<times> 'db"
    and generation :: "'ans \<Rightarrow> 'db \<Rightarrow> error + 'gen option"
    and load :: "'ans \<Rightarrow> 'db \<Rightarrow> error + ('gen \<times> 'data) option"
    and view :: "'db \<Rightarrow> ('gen \<times> 'data) option"
  assumes save_ok: "fst (save a t g d s) = None \<Longrightarrow> view (snd (save a t g d s)) = Some (g, d)"
    and save_failed: "view (snd (save a t g d s)) \<in> {view s, Some (g, d)}"
    and load_view: "load a s = Inr r \<Longrightarrow> r = view s"
    and generation_view: "generation a s = Inr q \<Longrightarrow> q = map_option fst (view s)"
begin

lemma last_write_wins:
  "fst (save b u h e (snd (save a t g d s))) = None \<Longrightarrow>
   view (snd (save b u h e (snd (save a t g d s)))) = Some (h, e)"
  by (rule save_ok)

text \<open>What was loaded is a blob that some save put there, or the first one.\<close>

definition saves :: "('ans \<times> time \<times> 'gen \<times> 'data) list \<Rightarrow> 'db \<Rightarrow> 'db" where
  "saves ws s = foldl (\<lambda>s (a, t, g, d). snd (save a t g d s)) s ws"

definition written :: "('ans \<times> time \<times> 'gen \<times> 'data) list \<Rightarrow> ('gen \<times> 'data) list" where
  "written ws = map (\<lambda>w. snd (snd w)) ws"

lemma view_saves: "view (saves ws s) = view s \<or> view (saves ws s) \<in> Some ` set (written ws)"
proof (induction ws rule: rev_induct)
  case Nil
  then show ?case by (simp add: saves_def)
next
  case (snoc w ws)
  obtain a t g d where w: "w = (a, t, g, d)" by (cases w)
  have "saves (ws @ [w]) s = snd (save a t g d (saves ws s))" and "written (ws @ [w]) = written ws @ [(g, d)]"
    by (simp_all add: saves_def written_def w)
  moreover have "view (snd (save a t g d (saves ws s))) = view (saves ws s) \<or>
      view (snd (save a t g d (saves ws s))) = Some (g, d)"
    using save_failed [of a t g d "saves ws s"] by blast
  ultimately show ?case
    using snoc by (elim disjE) simp_all
qed

lemma loaded_was_saved:
  "load a (saves ws s) = Inr (Some (g, d)) \<Longrightarrow> view s = Some (g, d) \<or> (g, d) \<in> set (written ws)"
  using load_view [of a "saves ws s"] view_saves [of ws s] by auto

end

definition row_view :: "row \<Rightarrow> 64 word \<times> document" where
  "row_view r = (pr_Generation r, pr_Data r)"

definition db_view :: "db \<Rightarrow> (64 word \<times> document) option" where
  "db_view db = (case db of No_table \<Rightarrow> None | Table r \<Rightarrow> map_option row_view r)"

definition Pg_load_view :: "pg_answer \<Rightarrow> db \<Rightarrow> error + (64 word \<times> document) option" where
  "Pg_load_view ans db = map_sum (\<lambda>e. e) (map_option row_view) (Pg_Load ans db)"

interpretation pg: snapshot_store Pg_Save Pg_Generation Pg_load_view db_view
  by unfold_locales
    (auto simp: Pg_Save_def Pg_Generation_def Pg_Load_def Pg_load_view_def query_row_def db_view_def
      row_view_def Let_def option.map_comp comp_def split: db.splits pg_answer.splits sum.splits)

end
