(* ===== verification/KeyProvider.thy ===== *)
theory KeyProvider
  imports KeysCache
begin

text \<open>
  What the HTTP server relies on of its \<open>KeyProvider\<close> (\<open>internal/api/api.go\<close>): the
  cached entry of a handle, matched without case, and a refresh that touches one handle and never
  trades known keys for an error. The writer's \<open>Cache\<close> and the readers' \<open>Reader\<close>
  both provide it. \<open>KeyStatus\<close> is the summary both give.
\<close>

record key_status =
  ks_Enabled :: bool
  ks_Handles :: nat
  ks_Cached :: nat
  ks_Errors :: nat
  ks_LastFetch :: time
  ks_LastCycle :: time
  ks_Pace :: duration  \<comment> \<open>\<open>PaceSeconds\<close>, in nanoseconds\<close>

definition count_entries :: "(entry \<Rightarrow> bool) \<Rightarrow> (string \<times> entry) list \<Rightarrow> nat" where
  "count_entries P m = length (filter (\<lambda>(_, e). P e) m)"

locale key_provider =
  fixes get :: "'s \<Rightarrow> string \<Rightarrow> entry option"
    and refresh :: "'env \<Rightarrow> string \<Rightarrow> 's \<Rightarrow> entry \<times> 's"
  assumes get_case: "toLower g = toLower h \<Longrightarrow> get s g = get s h"
    and refresh_frame: "toLower g \<noteq> toLower h \<Longrightarrow> get (snd (refresh env h s)) g = get s g"
    and refresh_stored:
      "get (snd (refresh env h s)) h = Some (fst (refresh env h s)) \<or>
       get (snd (refresh env h s)) h = None \<and> get s h = None \<and> en_Keys (fst (refresh env h s)) = []"
    and refresh_failed:
      "en_LastError (fst (refresh env h s)) \<noteq> [] \<Longrightarrow>
       en_Keys (fst (refresh env h s)) = (case get s h of None \<Rightarrow> [] | Some e \<Rightarrow> en_Keys e)"
begin

definition keys_of_handle :: "'s \<Rightarrow> string \<Rightarrow> string list" where
  "keys_of_handle s h = (case get s h of None \<Rightarrow> [] | Some e \<Rightarrow> en_Keys e)"

text \<open>A refresh that failed serves, and leaves in place, the keys known before.\<close>

lemma failed_refresh_keeps:
  assumes "en_LastError (fst (refresh env h s)) \<noteq> []"
  shows "keys_of_handle (snd (refresh env h s)) g = keys_of_handle s g"
proof (cases "toLower g = toLower h")
  case True
  have "get (snd (refresh env h s)) h = Some (fst (refresh env h s)) \<or>
      get (snd (refresh env h s)) h = None \<and> get s h = None"
    using refresh_stored by blast
  then have "keys_of_handle (snd (refresh env h s)) h = keys_of_handle s h"
    using refresh_failed [OF assms] by (auto simp: keys_of_handle_def)
  then show ?thesis
    using get_case [OF True] by (simp add: keys_of_handle_def)
next
  case False
  then show ?thesis
    by (simp add: keys_of_handle_def refresh_frame)
qed

text \<open>What a refresh returns is what the provider serves from then on.\<close>

lemma refresh_served: "keys_of_handle (snd (refresh env h s)) h = en_Keys (fst (refresh env h s))"
  using refresh_stored [of env h s] by (auto simp: keys_of_handle_def)

lemma refreshed_stays: "get s g \<noteq> None \<Longrightarrow> get (snd (refresh env h s)) g \<noteq> None"
  using get_case refresh_frame refresh_stored by (metis option.distinct(1))

end

end
