(* ===== verification/Http.thy ===== *)
theory Http
  imports Prelude
begin

text \<open>
  What the program's three clients use of \<open>net/url\<close> and \<open>net/http\<close>: escaping of a
  path segment, and the outcome of a request.
\<close>

text \<open>
  \<open>url.PathEscape\<close>: what is kept as it is in a path segment.
\<close>

definition unreserved :: "char \<Rightarrow> bool" where
  "unreserved c \<longleftrightarrow>
     (CHR ''a'' \<le> c \<and> c \<le> CHR ''z'') \<or> (CHR ''A'' \<le> c \<and> c \<le> CHR ''Z'') \<or> (CHR ''0'' \<le> c \<and> c \<le> CHR ''9'') \<or>
     c \<in> set ''-_.~$&+:=@''"

definition upper_hex :: "nat \<Rightarrow> char" where
  "upper_hex n = (if n < 10 then char_of (48 + n) else char_of (55 + n))"

definition pathEscape :: "string \<Rightarrow> string" where
  "pathEscape s = concat (map (\<lambda>c. if unreserved c then [c]
     else [CHR 0x25, upper_hex (of_char c div 16), upper_hex (of_char c mod 16)]) s)"

text \<open>
  The outcome of building and sending a request: refused by \<open>http.NewRequest\<close>, no response,
  or a status code with a body that may break off with a read error.
\<close>

datatype http_answer =
  Bad_request error | No_response error | Response nat string "error option"

type_synonym upstream = "string \<Rightarrow> http_answer"

end
