(* ===== verification/Keys.thy ===== *)
theory Keys
  imports KeyProvider Http Complex_Main "HOL-Library.Signed_Division"
begin

text \<open>
  Package \<open>internal/keys\<close>, file \<open>keys.go\<close>: the rate-paced cache of SSH keys. One
  request (\<open>fetch\<close>, \<open>parseKeys\<close>), its effect on the cache and its persistence
  (\<open>fetchOne\<close>), the pruning of dropped handles, the pace, and the walker as a step
  relation over its phases, interleaved with the refreshes of the HTTP handlers.

  What GitHub answers is a parameter: a function from the requested URL.
\<close>

section \<open>One upstream request\<close>

text \<open>
  \<open>bufio.Scanner\<close> gives up on a line that fills its buffer of 1 MiB without an end of line
  (a last line of exactly that size is counted as too long).
\<close>

definition max_line :: nat where
  "max_line = 1024 * 1024"

definition parseKeys :: "string \<Rightarrow> error option \<Rightarrow> error + string list" where
  "parseKeys body read_err =
     (let lines = split_on newline body
      in if list_ex (\<lambda>line. max_line \<le> length line) lines
         then Inl ''read keys: bufio.Scanner: token too long''
         else case read_err of
             Some e \<Rightarrow> Inl (''read keys: '' @ e)
           | None \<Rightarrow> Inr (sortStrings (filter (\<lambda>line. line \<noteq> []) (map trimSpace lines))))"

definition endpoint :: "string \<Rightarrow> string \<Rightarrow> string" where
  "endpoint base handle = base @ ''/'' @ pathEscape handle @ ''.keys''"

definition Cache_fetch :: "string \<Rightarrow> upstream \<Rightarrow> string \<Rightarrow> error + string list" where
  "Cache_fetch base http handle =
     (case http (endpoint base handle) of
        Bad_request e \<Rightarrow> Inl (''build request: '' @ e)
      | No_response e \<Rightarrow> Inl (''fetch '' @ quote handle @ '' keys: '' @ e)
      | Response code body read_err \<Rightarrow>
          if code = 200 then parseKeys body read_err
          else if code = 404 then Inl (''handle '' @ quote handle @ '' not found'')
          else if code = 403 \<or> code = 429 then
            Inl (''handle '' @ quote handle @ '' rate limited (status '' @ show_nat code @ '')'')
          else Inl (''fetch '' @ quote handle @ '' keys: unexpected status '' @ show_nat code))"

section \<open>The cache\<close>

record keys_config =
  kc_Enabled :: bool
  kc_BaseURL :: string
  kc_RefreshInterval :: duration
  kc_MaxRequestsPerSecond :: rat
  kc_WarmTimeout :: duration
  kc_CacheDir :: string

record cache =
  ca_cfg :: keys_config
  ca_minDelay :: duration
  ca_warmTimeout :: duration
  ca_warmed :: bool
  ca_startedAt :: time
  ca_entries :: "(string \<times> entry) list"
  ca_lastFetch :: time
  ca_lastCycle :: time
  ca_pace :: duration

definition defaultWarmTimeout :: duration where
  "defaultWarmTimeout = 120 * second_ns"

definition trim_slashes :: "string \<Rightarrow> string" where
  "trim_slashes s = rev (dropWhile (\<lambda>c. c = CHR ''/'') (rev s))"

text \<open>
  The quotient of the minimal delay is exact here; Go computes it in \<open>float64\<close> before it
  truncates.
\<close>

definition Cache_New :: "keys_config \<Rightarrow> cache" where
  "Cache_New cfg =
     (let base = (if kc_BaseURL cfg = [] then ''https://github.com'' else kc_BaseURL cfg);
          minDelay = (if kc_MaxRequestsPerSecond cfg > 0
                      then \<lfloor>of_int second_ns / kc_MaxRequestsPerSecond cfg\<rfloor> else 0);
          warmTimeout = (if kc_WarmTimeout cfg \<le> 0 then defaultWarmTimeout else kc_WarmTimeout cfg)
      in \<lparr>ca_cfg = cfg\<lparr>kc_BaseURL := trim_slashes base\<rparr>, ca_minDelay = minDelay,
          ca_warmTimeout = warmTimeout, ca_warmed = False, ca_startedAt = 0, ca_entries = [],
          ca_lastFetch = zero_time, ca_lastCycle = zero_time, ca_pace = 0\<rparr>)"

text \<open>\<open>Start\<close> up to the launch of the walker.\<close>

definition Cache_Start :: "time \<Rightarrow> read_env \<Rightarrow> fs \<Rightarrow> cache \<Rightarrow> cache" where
  "Cache_Start now re fs c =
     (let c = c\<lparr>ca_startedAt := now\<rparr>
      in case loadCache re (kc_CacheDir (ca_cfg c)) fs of
           Inl _ \<Rightarrow> c
         | Inr cached \<Rightarrow> if cached \<noteq> [] then c\<lparr>ca_entries := cached, ca_warmed := True\<rparr> else c)"

definition Cache_Get :: "cache \<Rightarrow> string \<Rightarrow> entry option" where
  "Cache_Get c handle = map_of (ca_entries c) (toLower handle)"

definition Cache_Snapshot :: "cache \<Rightarrow> (string \<times> entry) list" where
  "Cache_Snapshot c = ca_entries c"

definition Cache_Status :: "cache \<Rightarrow> key_status" where
  "Cache_Status c =
     \<lparr>ks_Enabled = True, ks_Handles = length (ca_entries c),
      ks_Cached = count_entries (\<lambda>e. \<not> isZero (en_FetchedAt e)) (ca_entries c),
      ks_Errors = count_entries (\<lambda>e. en_LastError e \<noteq> []) (ca_entries c),
      ks_LastFetch = ca_lastFetch c, ks_LastCycle = ca_lastCycle c, ks_Pace = ca_pace c\<rparr>"

definition Cache_Warmed :: "time \<Rightarrow> cache \<Rightarrow> bool" where
  "Cache_Warmed now c \<longleftrightarrow>
     ca_warmed c \<or> (ca_startedAt c \<noteq> 0 \<and> now - ca_startedAt c > ca_warmTimeout c)"

definition paceFor :: "cache \<Rightarrow> int \<Rightarrow> duration" where
  "paceFor c n =
     (if n \<le> 0 then ca_minDelay c
      else max (kc_RefreshInterval (ca_cfg c) sdiv n) (ca_minDelay c))"

text \<open>
  What one fetch observes: the clock before it, GitHub, and the disk under the write that follows.
  The result is the entry, the cache, and the states of the file system.
\<close>

record fetch_env =
  fv_now :: time
  fv_http :: upstream
  fv_disk :: write_env

definition Cache_fetchOne :: "fetch_env \<Rightarrow> string \<Rightarrow> cache \<times> fs \<Rightarrow> entry \<times> cache \<times> fs list" where
  "Cache_fetchOne env handle st =
     (let (c, fs) = st;
          key = toLower handle;
          e = (case map_of (ca_entries c) key of
                 None \<Rightarrow> (zero_entry\<lparr>en_Handle := handle\<rparr>) | Some found \<Rightarrow> found);
          e = e\<lparr>en_LastAttempt := fv_now env\<rparr>
      in case Cache_fetch (kc_BaseURL (ca_cfg c)) (fv_http env) handle of
           Inl err \<Rightarrow>
             let e = e\<lparr>en_LastError := err\<rparr>
             in (e, c\<lparr>ca_entries := put key e (ca_entries c)\<rparr>, [])
         | Inr ks \<Rightarrow>
             let e = e\<lparr>en_Keys := ks, en_FetchedAt := fv_now env, en_LastError := []\<rparr>
             in (e, c\<lparr>ca_entries := put key e (ca_entries c), ca_lastFetch := fv_now env\<rparr>,
                 snd (writeEntry (fv_disk env) (kc_CacheDir (ca_cfg c)) key e fs)))"

definition Cache_Refresh :: "fetch_env \<Rightarrow> string \<Rightarrow> cache \<times> fs \<Rightarrow> entry \<times> cache \<times> fs" where
  "Cache_Refresh env handle st =
     (case Cache_fetchOne env handle st of
        (e, c, states) \<Rightarrow> (e, c, final_state (snd st) states))"

text \<open>
  \<open>prune\<close>: the entries in memory first, then the files. \<open>rm\<close> is what
  \<open>os.Remove\<close> answers for the file of a key.
\<close>

definition prune :: "(string \<Rightarrow> error option) \<Rightarrow> string list \<Rightarrow> cache \<times> fs \<Rightarrow> cache \<times> fs" where
  "prune rm handles st =
     (case st of (c, fs) \<Rightarrow>
      let want = map toLower handles;
          removed = filter (\<lambda>key. key \<notin> set want) (map fst (ca_entries c))
      in (c\<lparr>ca_entries := filter (\<lambda>(key, _). key \<in> set want) (ca_entries c)\<rparr>,
          foldl (\<lambda>fs key. snd (removeEntry (rm key) (kc_CacheDir (ca_cfg c)) key fs)) fs removed))"

section \<open>The walker\<close>

text \<open>
  Where the walker is: at the top of its loop, in a pass (the handles done, the handles to do, the
  delay of the pass), asleep because there was nothing to fetch, or stopped.
\<close>

datatype phase = Top | Pass "string list" "string list" duration | Idle | Halted

type_synonym walker = "phase \<times> cache \<times> fs"

text \<open>
  \<open>world\<close> bounds what GitHub and the disk may answer (\<open>\<lambda>_. True\<close>: anything), and
  \<open>desired\<close> the handle sets \<open>handlesFn\<close> may return.
\<close>

inductive walk_step :: "(fetch_env \<Rightarrow> bool) \<Rightarrow> (string list \<Rightarrow> bool) \<Rightarrow> walker \<Rightarrow> walker \<Rightarrow> bool"
  for world :: "fetch_env \<Rightarrow> bool" and desired :: "string list \<Rightarrow> bool" where
  nothing_to_fetch:
    "desired [] \<Longrightarrow> prune rm [] (c, fs) = (c', fs') \<Longrightarrow>
     walk_step world desired (Top, c, fs) (Idle, c'\<lparr>ca_warmed := True\<rparr>, fs')"
| begin_pass:
    "desired handles \<Longrightarrow> handles \<noteq> [] \<Longrightarrow> prune rm handles (c, fs) = (c', fs') \<Longrightarrow>
     delay = (if ca_warmed c' then paceFor c' (int (length handles)) else ca_minDelay c') \<Longrightarrow>
     walk_step world desired (Top, c, fs) (Pass [] handles delay, c'\<lparr>ca_pace := delay\<rparr>, fs')"
| fetch_next:
    "world env \<Longrightarrow> Cache_fetchOne env h (c, fs) = (e, c', states) \<Longrightarrow>
     walk_step world desired (Pass before (h # todo) delay, c, fs)
       (Pass (before @ [h]) todo delay, c', final_state fs states)"
| end_pass:
    "walk_step world desired (Pass before [] delay, c, fs)
       (Top, c\<lparr>ca_lastCycle := now, ca_warmed := True\<rparr>, fs)"
| wake: "walk_step world desired (Idle, c, fs) (Top, c, fs)"
| stop_idle: "walk_step world desired (Idle, c, fs) (Halted, c, fs)"
| stop_pass:
    "todo \<noteq> [] \<or> before \<noteq> [] \<and> delay > 0 \<Longrightarrow>
     walk_step world desired (Pass before todo delay, c, fs) (Halted, c, fs)"
| handler_refresh:
    "world env \<Longrightarrow> Cache_Refresh env h (c, fs) = (e, c', fs') \<Longrightarrow>
     walk_step world desired (p, c, fs) (p, c', fs')"

inductive_cases walk_stepE: "walk_step world desired x y"

section \<open>Lemmas: requests\<close>

lemma parseKeys_Inr:
  "parseKeys body read_err = Inr ks \<longleftrightarrow>
     read_err = None \<and> (\<forall>line\<in>set (split_on newline body). length line < max_line) \<and>
     ks = sort (filter (\<lambda>line. line \<noteq> []) (map trimSpace (split_on newline body)))"
  by (auto simp: parseKeys_def Let_def list_ex_iff not_le [symmetric] split: option.splits if_splits)

lemma parseKeys_error: "parseKeys body read_err = Inl err \<Longrightarrow> err \<noteq> []"
  by (auto simp: parseKeys_def Let_def split: option.splits if_splits)

lemma Cache_fetch_error: "Cache_fetch base http handle = Inl err \<Longrightarrow> err \<noteq> []"
  by (auto simp: Cache_fetch_def split: http_answer.splits if_splits dest: parseKeys_error)

definition healthy_answer :: "http_answer \<Rightarrow> bool" where
  "healthy_answer a \<longleftrightarrow> (case a of Response code body read_err \<Rightarrow> code = 200 \<and> read_err = None | _ \<Rightarrow> False)"

lemma Cache_fetch_ok: "Cache_fetch base http handle = Inr ks \<Longrightarrow> healthy_answer (http (endpoint base handle))"
  by (auto simp: Cache_fetch_def healthy_answer_def parseKeys_Inr split: http_answer.splits if_splits)

section \<open>Lemmas: one fetch\<close>

lemma Cache_fetchOne_fields:
  assumes "Cache_fetchOne env h (c, fs) = (e, c', states)"
  shows "ca_entries c' = put (toLower h) e (ca_entries c)"
    and "ca_cfg c' = ca_cfg c" "ca_warmed c' = ca_warmed c" "ca_minDelay c' = ca_minDelay c"
    and "ca_startedAt c' = ca_startedAt c" "ca_warmTimeout c' = ca_warmTimeout c"
    and "en_LastAttempt e = fv_now env"
    and "en_Handle e = (case map_of (ca_entries c) (toLower h) of None \<Rightarrow> h | Some old \<Rightarrow> en_Handle old)"
  using assms
  by (auto simp: Cache_fetchOne_def Let_def zero_entry_def split: sum.splits option.splits)

lemma Cache_fetchOne_entry:
  assumes "Cache_fetchOne env h (c, fs) = (e, c', states)"
  shows "case Cache_fetch (kc_BaseURL (ca_cfg c)) (fv_http env) h of
      Inl err \<Rightarrow> en_LastError e = err \<and>
        en_Keys e = (case Cache_Get c h of None \<Rightarrow> [] | Some old \<Rightarrow> en_Keys old) \<and>
        en_FetchedAt e = (case Cache_Get c h of None \<Rightarrow> zero_time | Some old \<Rightarrow> en_FetchedAt old) \<and>
        states = [] \<and> ca_lastFetch c' = ca_lastFetch c
    | Inr ks \<Rightarrow> en_LastError e = [] \<and> en_Keys e = ks \<and> en_FetchedAt e = fv_now env \<and>
        states = snd (writeEntry (fv_disk env) (kc_CacheDir (ca_cfg c)) (toLower h) e fs) \<and>
        ca_lastFetch c' = fv_now env"
  using assms
  by (auto simp: Cache_fetchOne_def Cache_Get_def Let_def zero_entry_def split: sum.splits option.splits)

lemma Cache_Get_fetchOne:
  assumes "Cache_fetchOne env h (c, fs) = (e, c', states)"
  shows "Cache_Get c' g = (if toLower g = toLower h then Some e else Cache_Get c g)"
  using Cache_fetchOne_fields(1) [OF assms] by (simp add: Cache_Get_def gomap_simps)

interpretation cache_provider: key_provider "\<lambda>(c, fs). Cache_Get c" Cache_Refresh
proof unfold_locales
  fix g h :: string and s :: "cache \<times> fs" and env
  obtain c fs where s: "s = (c, fs)" by (cases s)
  obtain e c' states where f: "Cache_fetchOne env h (c, fs) = (e, c', states)"
    by (metis prod_cases3)
  then have r: "Cache_Refresh env h s = (e, c', final_state fs states)"
    by (simp add: Cache_Refresh_def s)
  show "toLower g = toLower h \<Longrightarrow> (case s of (c, fs) \<Rightarrow> Cache_Get c) g = (case s of (c, fs) \<Rightarrow> Cache_Get c) h"
    by (simp add: s Cache_Get_def)
  show "toLower g \<noteq> toLower h \<Longrightarrow>
      (case snd (Cache_Refresh env h s) of (c, fs) \<Rightarrow> Cache_Get c) g = (case s of (c, fs) \<Rightarrow> Cache_Get c) g"
    unfolding r by (simp add: s Cache_Get_fetchOne [OF f])
  show "(case snd (Cache_Refresh env h s) of (c, fs) \<Rightarrow> Cache_Get c) h = Some (fst (Cache_Refresh env h s)) \<or>
      (case snd (Cache_Refresh env h s) of (c, fs) \<Rightarrow> Cache_Get c) h = None \<and>
      (case s of (c, fs) \<Rightarrow> Cache_Get c) h = None \<and> en_Keys (fst (Cache_Refresh env h s)) = []"
    by (simp add: r Cache_Get_fetchOne [OF f])
  show "en_LastError (fst (Cache_Refresh env h s)) \<noteq> [] \<Longrightarrow>
      en_Keys (fst (Cache_Refresh env h s)) =
        (case (case s of (c, fs) \<Rightarrow> Cache_Get c) h of None \<Rightarrow> [] | Some e \<Rightarrow> en_Keys e)"
    using Cache_fetchOne_entry [OF f] unfolding r by (auto simp: s split: sum.splits)
qed

end
