(* ===== verification/Reader.thy ===== *)
theory Reader
  imports KeyProvider
begin

text \<open>
  Package \<open>internal/keys\<close>, file \<open>reader.go\<close>: the key provider of the reader pods,
  filled from a published snapshot and never from GitHub.
\<close>

record reader =
  rd_entries :: "(string \<times> entry) list"
  rd_generatedAt :: time
  rd_loaded :: bool

definition NewReader :: reader where
  "NewReader = \<lparr>rd_entries = [], rd_generatedAt = zero_time, rd_loaded = False\<rparr>"

definition Reader_Replace :: "(string \<times> entry) list \<Rightarrow> time \<Rightarrow> reader \<Rightarrow> reader" where
  "Reader_Replace entries generatedAt r =
     r\<lparr>rd_entries := entries, rd_generatedAt := generatedAt, rd_loaded := True\<rparr>"

definition Reader_Get :: "reader \<Rightarrow> string \<Rightarrow> entry option" where
  "Reader_Get r handle = map_of (rd_entries r) (toLower handle)"

definition Reader_Refresh :: "string \<Rightarrow> reader \<Rightarrow> entry" where
  "Reader_Refresh handle r =
     (case Reader_Get r handle of
        Some e \<Rightarrow> e
      | None \<Rightarrow> zero_entry\<lparr>en_Handle := handle\<rparr>)"

definition Reader_Status :: "reader \<Rightarrow> key_status" where
  "Reader_Status r =
     \<lparr>ks_Enabled = True, ks_Handles = length (rd_entries r),
      ks_Cached = count_entries (\<lambda>e. \<not> isZero (en_FetchedAt e)) (rd_entries r),
      ks_Errors = count_entries (\<lambda>e. en_LastError e \<noteq> []) (rd_entries r),
      ks_LastFetch = zero_time, ks_LastCycle = rd_generatedAt r, ks_Pace = 0\<rparr>"

definition Reader_Warmed :: "reader \<Rightarrow> bool" where
  "Reader_Warmed r \<longleftrightarrow> rd_loaded r"

text \<open>A refresh ignores its context and changes nothing.\<close>

interpretation reader_provider: key_provider Reader_Get "\<lambda>(env :: 'env) handle r. (Reader_Refresh handle r, r)"
  by unfold_locales
    (auto simp: Reader_Get_def Reader_Refresh_def zero_entry_def split: option.splits)

end
