(* ===== verification/IndexProps.thy ===== *)
theory IndexProps
  imports IndexSnapshot
begin

text \<open>
  Properties of \<open>internal/index\<close>: what \<open>Build\<close> computes, its inverse, the
  queries, and the snapshot file.
\<close>

section \<open>Building\<close>

text \<open>
  C1. What Build records for a team and a lowercased handle is exactly what the rows of
  that team and handle say: the casing of the first row, the first non-empty name, and the
  sorted sets of their sources and orgs; rows without a handle or a team are ignored.
\<close>

theorem build_superset:
  "find_member (Build t rows) slug key = member_spec (rows_for slug key rows)"
  by (rule Build_find_member)

text \<open>
  C20. Every index Build returns is well formed: distinct keys, slugs that agree with
  their keys, no empty team, members stored under their lowercased handle with non-empty
  sources, provenance sorted and free of duplicates.
\<close>

theorem build_well_formed: "index_wf (Build t rows)"
  by (rule Build_index_wf)

text \<open>
  Rows that carry an org come from the github-org source, the only one that sets it.
\<close>

definition org_from_github :: "membership \<Rightarrow> bool" where
  "org_from_github m \<longleftrightarrow> (ms_Org m \<noteq> [] \<longrightarrow> ms_Source m = NameGitHubOrg)"

lemma member_spec_attributed:
  assumes "list_all org_from_github rows" and "member_spec rows = Some m"
  shows "orgs_attributed m"
proof -
  obtain r rs where "rows = r # rs"
    using assms(2) by (cases rows) (auto simp: member_spec_def)
  with assms(2) have m: "mb_Sources m = sorted_list_of_set (ms_Source ` set rows)"
    "mb_Orgs m = sorted_list_of_set (ms_Org ` set rows - {[]})"
    by (auto simp: member_spec_def simp del: sorted_list_of_set_insert_remove)
  show ?thesis
  proof (unfold orgs_attributed_def, intro impI)
    assume "mb_Orgs m \<noteq> []"
    then obtain row where "row \<in> set rows" "ms_Org row \<noteq> []"
      unfolding m by (metis (no_types, lifting) Diff_eq_empty_iff image_subsetI insertI1
          sorted_list_of_set.sorted_key_list_of_set_empty)
    with assms(1) show "NameGitHubOrg \<in> set (mb_Sources m)"
      unfolding m by (force simp: list_all_iff org_from_github_def)
  qed
qed

lemma index_attributedI:
  assumes "index_shape i"
    and "\<And>slug key m. find_member i slug key = Some m \<Longrightarrow> orgs_attributed m"
  shows "index_attributed i"
proof -
  have "orgs_attributed m" if "(slug, t) \<in> set (ix_Teams i)" "(key, m) \<in> set (tm_Members t)" for slug t key m
  proof -
    have t: "map_of (ix_Teams i) slug = Some t"
      using that(1) assms(1) by (simp add: index_shape_def gomap_in_set)
    moreover have "gomap (tm_Members t)"
      using index_shape_team [OF assms(1) t] by (simp add: team_shape_def)
    ultimately show ?thesis
      using that(2) assms(2) [of slug key m] by (simp add: find_member_def gomap_in_set)
  qed
  then show ?thesis
    by (fastforce simp: index_attributed_def list_all_iff)
qed

lemma Build_attributed:
  assumes "list_all org_from_github rows"
  shows "index_attributed (Build t rows)"
proof (rule index_attributedI [OF Build_index_shape])
  fix slug key m
  assume "find_member (Build t rows) slug key = Some m"
  moreover have "list_all org_from_github (rows_for slug key rows)"
    using assms by (auto simp: list_all_iff rows_for_def)
  ultimately show "orgs_attributed m"
    by (auto simp: Build_find_member intro: member_spec_attributed)
qed

text \<open>
  C26. Flattening a built index with Memberships and rebuilding it gives the same index,
  provenance and names included, when only the github-org source sets an org. This is what
  lets a restarted syncer recover its per-source rows from a snapshot.
\<close>

theorem memberships_roundtrip:
  assumes "list_all org_from_github rows"
  shows "index_eq (Build t (Memberships (Build t rows))) (Build t rows)"
proof -
  have "find_member (Build t (Memberships (Build t rows))) slug key = find_member (Build t rows) slug key"
    for slug key
    using assms by (intro Build_Memberships_find Build_index_wf Build_attributed)
  then show ?thesis
    by (simp add: index_eq_def fun_eq_iff)
qed

definition sample_rows :: "membership list" where
  "sample_rows =
     [\<lparr>ms_Handle = ''bob'', ms_Team = ''reth'', ms_Source = ''protocol-guild'', ms_Org = [], ms_Name = []\<rparr>,
      \<lparr>ms_Handle = ''Ada'', ms_Team = ''geth'', ms_Source = ''manual'', ms_Org = [], ms_Name = []\<rparr>,
      \<lparr>ms_Handle = ''ada'', ms_Team = ''geth'', ms_Source = ''github-org'', ms_Org = ''ethereum'',
       ms_Name = ''Ada L.''\<rparr>]"

theorem memberships_roundtrip_sample:
  "index_eq (Build 7 (Memberships (Build 7 sample_rows))) (Build 7 sample_rows)"
  by (rule memberships_roundtrip)
    (simp add: sample_rows_def org_from_github_def NameGitHubOrg_def)

section \<open>Queries\<close>

text \<open>The queries answer the same whatever the iteration order of the maps.\<close>

lemma queries_ignore_map_order:
  assumes "index_wf i" and "index_wf j" and "index_eq i j"
  shows "TeamSlugs i = TeamSlugs j \<and> Members i slug src = Members j slug src \<and>
    Users i = Users j \<and> Memberships i = Memberships j \<and> map_of (Lookup i handle) = map_of (Lookup j handle)"
proof -
  have "TeamSlugs i = TeamSlugs j"
    using assms by (intro index_eq_TeamSlugs) auto
  moreover from this have "Memberships i = Memberships j"
    using index_eq_Members [OF assms] by (simp add: Memberships_def)
  moreover have "map_of (Lookup i handle) = map_of (Lookup j handle)"
    using assms by (simp add: fun_eq_iff Lookup_find index_wf_shape index_eq_def)
  ultimately show ?thesis
    using index_eq_Members [OF assms] index_eq_Users [OF assms] by simp
qed

text \<open>The index read back from its snapshot keeps its maps in another order.\<close>

lemma queries_ignore_map_order_sample:
  "Users (norm_index (Build 7 sample_rows)) = Users (Build 7 sample_rows)"
  using queries_ignore_map_order [of "norm_index (Build 7 sample_rows)" "Build 7 sample_rows" "[]" "[]" "[]"]
  by (simp add: norm_index_wf norm_index_eq Build_index_wf Build_index_shape)

text \<open>
  Members returns exactly the members of the team that carry the source filter (all
  when it is empty), each once, sorted by lowercased handle.
\<close>

lemma members_complete_and_sorted:
  assumes "index_wf i"
  shows "(m \<in> set (Members i slug src) \<longleftrightarrow>
      find_member i slug (toLower (mb_Handle m)) = Some m \<and> (src \<noteq> [] \<longrightarrow> src \<in> set (mb_Sources m))) \<and>
    sorted (map (\<lambda>m. toLower (mb_Handle m)) (Members i slug src)) \<and>
    distinct (map (\<lambda>m. toLower (mb_Handle m)) (Members i slug src))"
  by (simp add: set_Members [OF assms] Members_keys [OF assms])

lemma Users_key_user:
  assumes "index_wf i" and "u \<in> set (Users i)"
  obtains v where "user_spec i (toLower (us_Handle u)) (TeamSlugs i) = Some v" "u = sort_user v"
proof -
  obtain key where key: "key \<in> index_keys i" "u = sort_user (the (user_spec i key (TeamSlugs i)))"
    using assms(2) by (auto simp: Users_eq [OF assms(1)])
  then obtain v where v: "user_spec i key (TeamSlugs i) = Some v"
    using user_spec_TeamSlugs [OF index_wf_shape [OF assms(1)], of key] by auto
  then have "toLower (us_Handle u) = key"
    using user_spec_key [OF assms(1) v] key(2) by (simp add: sort_user_def)
  with v key(2) that [of v] show thesis by simp
qed

theorem members_complete_and_sorted_sample:
  "sorted (map (\<lambda>m. toLower (mb_Handle m)) (Members (Build 7 sample_rows) ''geth'' ''manual''))"
  using members_complete_and_sorted [OF Build_index_wf [of 7 sample_rows]] by blast

text \<open>Each person once, in the order of the lowercased handles.\<close>

lemma users_one_per_person:
  assumes "index_wf i"
  shows "sorted (map (\<lambda>u. toLower (us_Handle u)) (Users i)) \<and>
    distinct (map (\<lambda>u. toLower (us_Handle u)) (Users i)) \<and>
    (key \<in> (\<lambda>u. toLower (us_Handle u)) ` set (Users i) \<longleftrightarrow> (\<exists>slug m. find_member i slug key = Some m))"
proof -
  have "(\<lambda>u. toLower (us_Handle u)) ` set (Users i) = index_keys i"
    using arg_cong [OF Users_keys [OF assms], of set] by simp
  then show ?thesis
    using assms by (simp add: Users_keys in_index_keys index_wf_shape)
qed

lemma users_one_per_person_sample:
  "distinct (map (\<lambda>u. toLower (us_Handle u)) (Users (Build 7 sample_rows)))"
  using users_one_per_person [OF Build_index_wf [of 7 sample_rows]] by blast

text \<open>
  A person of Users has exactly the teams that hold the handle, sorted, and the union
  of its sources and orgs over them, sorted and free of duplicates.
\<close>

lemma users_aggregate_provenance:
  assumes "index_wf i" and "u \<in> set (Users i)" and "key = toLower (us_Handle u)"
  shows "us_Teams u = filter (\<lambda>slug. find_member i slug key \<noteq> None) (TeamSlugs i) \<and>
    sorted (us_Sources u) \<and> distinct (us_Sources u) \<and>
    set (us_Sources u) = (\<Union>slug\<in>set (us_Teams u). set (mb_Sources (the (find_member i slug key)))) \<and>
    sorted (us_Orgs u) \<and> distinct (us_Orgs u) \<and>
    set (us_Orgs u) = (\<Union>slug\<in>set (us_Teams u). set (mb_Orgs (the (find_member i slug key))))"
proof -
  obtain v where v: "user_spec i key (TeamSlugs i) = Some v" "u = sort_user v"
    using Users_key_user [OF assms(1,2)] assms(3) by blast
  have "sorted (TeamSlugs i)"
    by (simp add: TeamSlugs_def)
  then have "sort (slugs_of i key (TeamSlugs i)) = slugs_of i key (TeamSlugs i)"
    by (simp add: slugs_of_def sorted_sort_id sorted_filter [of "\<lambda>x. x", simplified])
  moreover have "distinct (TeamSlugs i)"
    using assms(1) by (simp add: index_wf_shape)
  ultimately show ?thesis
    using user_spec_fields [OF v(1)] by (simp add: v(2) sort_user_def) (simp add: slugs_of_def)
qed

definition sample_user :: user where
  "sample_user = \<lparr>us_Handle = ''Ada'', us_Name = ''Ada L.'', us_Teams = [''geth''],
     us_Sources = [''github-org'', ''manual''], us_Orgs = [''ethereum'']\<rparr>"

lemma sample_user_listed:
  "sample_user \<in> set (Users (Build 7 sample_rows))" "''ada'' = toLower (us_Handle sample_user)"
  by code_simp+

lemma users_aggregate_provenance_sample:
  "us_Teams sample_user =
     filter (\<lambda>slug. find_member (Build 7 sample_rows) slug ''ada'' \<noteq> None) (TeamSlugs (Build 7 sample_rows))"
  using users_aggregate_provenance [OF Build_index_wf sample_user_listed]
  by (simp add: sample_user_def)

section \<open>The snapshot file\<close>

text \<open>
  C25. After a successful Save, LoadSnapshot returns a well-formed index with the same
  content.
\<close>

theorem save_load_roundtrip:
  assumes "index_wf i" and "path \<noteq> []" and "fst (Save env i path fs) = None"
  shows "\<exists>j. LoadSnapshot None path (final_state fs (snd (Save env i path fs))) = Inr (Some j) \<and>
    index_eq j i \<and> index_wf j"
proof -
  have "map_of (final_state fs (snd (Save env i path fs))) path = Some (Doc (enc_index i))"
    using index_file.outcome [of path path fs env i] assms(2,3) by (simp add: snapshot_file_def)
  then have "LoadSnapshot None path (final_state fs (snd (Save env i path fs))) = Inr (Some (norm_index i))"
    by (rule LoadSnapshot_doc [OF assms(2)])
  then show ?thesis
    using assms(1) by (auto intro: norm_index_eq norm_index_wf)
qed

definition healthy_disk :: write_env where
  "healthy_disk = \<lparr>we_mkdir = None, we_marshal = None, we_create = Inr ''123'', we_write = None,
     we_close = None, we_rename = None, we_remove = None\<rparr>"

lemma Save_healthy: "fst (Save healthy_disk i path fs) = None"
  by (simp add: Save_def healthy_disk_def write_temp_rename_def Let_def)

theorem save_load_roundtrip_sample:
  "\<exists>j. LoadSnapshot None ''/s.json''
      (final_state [] (snd (Save healthy_disk (Build 7 sample_rows) ''/s.json'' []))) = Inr (Some j) \<and>
    index_eq j (Build 7 sample_rows)"
  using save_load_roundtrip [OF Build_index_wf [of 7 sample_rows] _ Save_healthy,
      of "''/s.json''" "[]"] by auto

text \<open>
  At every moment of a Save, whatever the system calls answer, the snapshot path
  holds the old document or the whole new one, and a failed Save leaves the old one.
\<close>

lemma save_never_shows_a_partial_file:
  assumes "path \<noteq> []" and "st \<in> set (fs # snd (Save env i path fs))"
  shows "(map_of st path = map_of fs path \<or> map_of st path = Some (Doc (enc_index i))) \<and>
    (fst (Save env i path fs) = Some e \<longrightarrow>
       map_of (final_state fs (snd (Save env i path fs))) path = map_of fs path)"
proof -
  have "snapshot_file path = Some path"
    using assms(1) by (simp add: snapshot_file_def)
  then show ?thesis
    using assms(2) index_file.never_partial [of path path st env i fs]
      index_file.failure [of path path env i fs e] by auto
qed

text \<open>A rename that fails: the target keeps its old content, the temporary file is removed.\<close>

definition no_rename :: write_env where
  "no_rename = healthy_disk\<lparr>we_rename := Some ''cross-device link''\<rparr>"

lemma save_never_shows_a_partial_file_sample:
  "fst (Save no_rename (Build 7 sample_rows) ''/s.json'' []) = Some (Rename_temp ''cross-device link'') \<and>
   map_of (final_state [] (snd (Save no_rename (Build 7 sample_rows) ''/s.json'' []))) ''/s.json'' = None"
proof -
  have err: "fst (Save no_rename (Build 7 sample_rows) ''/s.json'' []) = Some (Rename_temp ''cross-device link'')"
    by (simp add: Save_def no_rename_def healthy_disk_def write_temp_rename_def Let_def)
  then show ?thesis
    using save_never_shows_a_partial_file [of "''/s.json''" "[]" "[]" no_rename "Build 7 sample_rows"
        "Rename_temp ''cross-device link''"] by simp
qed

end
