(* ===== verification/SyncerProps.thy ===== *)
theory SyncerProps
  imports Syncer IndexProps
begin

text \<open>
  Properties of \<open>internal/syncer\<close>: the superset, independence of the schedule, the
  publish and persist guards, the sanity floors, and recovery after a restart.
\<close>

section \<open>The superset a sync builds\<close>

lemma member_spec_sources:
  assumes "member_spec rows = Some m"
  shows "set (mb_Sources m) = ms_Source ` set rows" and "set (mb_Orgs m) = ms_Org ` set rows - {[]}"
proof -
  obtain r rs where "rows = r # rs"
    using assms by (cases rows) (auto simp: member_spec_def)
  then have "member_spec rows = Some \<lparr>mb_Handle = ms_Handle r,
      mb_Name = first_nonempty (map ms_Name rows),
      mb_Sources = sorted_list_of_set (ms_Source ` set rows),
      mb_Orgs = sorted_list_of_set (ms_Org ` set rows - {[]})\<rparr>"
    by (simp add: member_spec_def)
  with assms show "set (mb_Sources m) = ms_Source ` set rows"
    and "set (mb_Orgs m) = ms_Org ` set rows - {[]}"
    by (metis (no_types, lifting) finite_imageI finite_set finite_Diff member.select_convs
        option.inject set_sorted_list_of_set)+
qed

lemma member_spec_row:
  assumes "row \<in> set rows"
  shows "\<exists>m. member_spec rows = Some m \<and> ms_Source row \<in> set (mb_Sources m)"
proof -
  obtain m where "member_spec rows = Some m"
    using assms by (cases rows) (auto simp: member_spec_def)
  with assms show ?thesis
    by (auto simp: member_spec_sources)
qed


section \<open>Schedules\<close>

lemma same_people_refl [simp]: "same_people i i"
  by (simp add: same_people_def option.rel_refl)

lemma Save_touches: "snd (Save env i path fs) = [] \<longleftrightarrow> snd (Save env j path fs) = []"
  by (auto simp: Save_def write_temp_rename_def Let_def split: option.splits sum.splits)

lemma starved_perm: "mset srcs = mset srcs' \<Longrightarrow> any_starved s srcs = any_starved s srcs'"
  and fresh_perm: "mset srcs = mset srcs' \<Longrightarrow> any_fresh s srcs = any_fresh s srcs'"
  by (auto simp: any_starved_def any_fresh_def dest: mset_eq_setD)


section \<open>Guards\<close>

text \<open>
  C3. While an index is published, a sync in which a source fails with no last good rows
  replaces neither the published index nor anything on disk.
\<close>

theorem starved_sync_keeps_good_state:
  assumes "distinct (map fe_Name srcs)" and "src \<in> set srcs" and "is_starved s src"
    and "Store_Get (sy_store s) = Some good" and "Sync now env srcs s fs = (idx, t, states)"
  shows "Store_Get (sy_store t) = Some good \<and> states = [] \<and> final_state fs states = fs"
proof -
  have "any_starved s srcs"
    using assms(2,3) by (auto simp: any_starved_def)
  with assms(4,5) Sync_store [OF assms(1), of now env s fs] Sync_disk [OF assms(1), of now env s fs]
  show ?thesis by simp
qed

text \<open>
  The first sync of a process with nothing to recover from serves its index even when
  a source is starved, and does not save it.
\<close>

lemma first_starved_sync_is_served_not_saved:
  assumes "distinct (map fe_Name srcs)" and "src \<in> set srcs" and "is_starved s src"
    and "Store_Get (sy_store s) = None" and "Sync now env srcs s fs = (idx, t, states)"
  shows "Store_Get (sy_store t) = Some idx \<and> states = []"
proof -
  have "any_starved s srcs"
    using assms(2,3) by (auto simp: any_starved_def)
  with assms(4,5) Sync_store [OF assms(1), of now env s fs] Sync_disk [OF assms(1), of now env s fs]
    Sync_index [OF assms(1), of now env s fs]
  show ?thesis by simp
qed

definition populated :: "syncer \<Rightarrow> bool" where
  "populated s \<longleftrightarrow> (case Store_Get (sy_store s) of None \<Rightarrow> False | Some i \<Rightarrow> ix_Teams i \<noteq> [])"

lemma fetch_all_store: "sy_store (fst (fetch_all srcs s)) = sy_store s"
  by (simp add: fetch_all_def fold_merge_source_state)

lemma Sync_populated: "populated s \<Longrightarrow> populated (fst (snd (Sync now env srcs s fs)))"
  using fetch_all_store [of srcs s]
  by (auto simp: Sync_def finish_sync_def populated_def Let_def split: prod.split option.splits)

lemma loop_step_populated: "loop_step x y \<Longrightarrow> populated (fst x) \<Longrightarrow> populated (fst y)"
  by (induction rule: loop_step.induct) (simp, metis Sync_populated fst_conv snd_conv, simp)

text \<open>
  C23. A published index that has a team is never replaced by one without, over any number
  of syncs.
\<close>

theorem served_index_never_emptied:
  assumes "loop_step\<^sup>*\<^sup>* (s, fs, True) (t, fs', running)" and "populated s"
  shows "populated t"
proof -
  have "populated (fst (t, fs', running))"
    using assms by (induction rule: rtranclp_induct) (auto dest: loop_step_populated)
  then show ?thesis by simp
qed

lemma contributed_row_indexed:
  assumes "distinct (map fe_Name srcs)" and "src \<in> set srcs" and "row \<in> set (contribution s src)"
    and "ms_Handle row \<noteq> []" and "ms_Team row \<noteq> []"
    and "map_of (sy_exclude s) (toLower (ms_Handle row)) \<noteq> Some True"
  shows "\<exists>m. find_member (fst (Sync now env srcs s fs)) (ms_Team row) (toLower (ms_Handle row)) = Some m \<and>
    ms_Source row \<in> set (mb_Sources m)"
proof -
  have "row \<in> set (contributed s srcs)"
    using assms(2,3,6) by (auto simp: in_contributed)
  then have "row \<in> set (rows_for (ms_Team row) (toLower (ms_Handle row)) (contributed s srcs))"
    using assms(4,5) by (simp add: rows_for_def)
  then show ?thesis
    unfolding Sync_index [OF assms(1)] Build_find_member by (rule member_spec_row)
qed

lemma failed_contribution: "fe_Result src = Inl err \<Longrightarrow> contribution s src = lastGoodFor s (fe_Name src)"
  by (simp add: contribution_def accepted_def)

text \<open>A row of the last good result stays in the built index while its source fails.\<close>

lemma outage_never_drops_a_row:
  assumes "distinct (map fe_Name srcs)" and "src \<in> set srcs" and "fe_Result src = Inl err"
    and "row \<in> set (lastGoodFor s (fe_Name src))"
    and "ms_Handle row \<noteq> []" and "ms_Team row \<noteq> []"
    and "map_of (sy_exclude s) (toLower (ms_Handle row)) \<noteq> Some True"
  shows "\<exists>m. find_member (fst (Sync now env srcs s fs)) (ms_Team row) (toLower (ms_Handle row)) = Some m \<and>
    ms_Source row \<in> set (mb_Sources m)"
  using assms(4-7)
  by (intro contributed_row_indexed [OF assms(1,2)]) (simp_all add: failed_contribution [OF assms(3)])

text \<open>No sync indexes an excluded handle, whatever the sources say.\<close>

lemma excluded_handle_never_indexed:
  assumes "distinct (map fe_Name srcs)" and "map_of (sy_exclude s) key = Some True"
  shows "find_member (fst (Sync now env srcs s fs)) slug key = None"
proof -
  have "sy_exclude s \<noteq> []"
    using assms(2) by auto
  then have "rows_for slug key (contributed s srcs) = []"
    using assms(2) by (auto simp: rows_for_def filter_empty_conv in_contributed)
  then show ?thesis
    by (simp add: Sync_index [OF assms(1)] Build_find_member member_spec_def)
qed


section \<open>The sanity floors\<close>

definition meets_floor :: "floor \<Rightarrow> membership list \<Rightarrow> bool" where
  "meets_floor f ms \<longleftrightarrow>
     (fl_MinMembers f > 0 \<longrightarrow> fl_MinMembers f \<le> int (length ms)) \<and>
     (fl_MinTeams f > 0 \<longrightarrow> fl_MinTeams f \<le> int (card (ms_Team ` set ms)))"

definition lastGood_meets_floors :: "syncer \<Rightarrow> bool" where
  "lastGood_meets_floors s \<longleftrightarrow>
     (\<forall>name ms. map_of (sy_lastGood s) name = Some ms \<longrightarrow> meets_floor (floor_for s name) ms)"

lemma accepted_meets_floor: "accepted s src = Some ms \<Longrightarrow> meets_floor (floor_for s (fe_Name src)) ms"
  by (auto simp: accepted_def meets_floor_def distinctTeams_def length_remdups_card_conv
      split: sum.splits if_splits)

lemma floor_for_cong: "sy_floors s = sy_floors t \<Longrightarrow> floor_for s name = floor_for t name"
  by (simp add: floor_for_def)

lemma fetchOne_meets_floors:
  assumes "lastGood_meets_floors s"
  shows "lastGood_meets_floors (snd (fetchOne src s))"
proof -
  have "floor_for (snd (fetchOne src s)) name = floor_for s name" for name
    by (rule floor_for_cong) simp
  then show ?thesis
    using assms accepted_meets_floor [of s src]
    by (auto simp: lastGood_meets_floors_def fetchOne_lastGood gomap_simps split: option.splits if_splits)
qed

lemma after_fetches_meets_floors: "lastGood_meets_floors s \<Longrightarrow> lastGood_meets_floors (after_fetches srcs s)"
  by (induction srcs arbitrary: s) (simp_all add: fetchOne_meets_floors)

lemma lastGood_meets_floors_cong:
  "sy_floors s = sy_floors t \<Longrightarrow> sy_lastGood s = sy_lastGood t \<Longrightarrow>
   lastGood_meets_floors s = lastGood_meets_floors t"
  by (simp add: lastGood_meets_floors_def floor_for_def)

lemma Sync_fields:
  "sy_floors (fst (snd (Sync now env srcs s fs))) = sy_floors s"
  "sy_exclude (fst (snd (Sync now env srcs s fs))) = sy_exclude s"
  "sy_snapshot (fst (snd (Sync now env srcs s fs))) = sy_snapshot s"
  "sy_lastGood (fst (snd (Sync now env srcs s fs))) = sy_lastGood (after_fetches srcs s)"
  by (simp_all add: Sync_def finish_sync_def fetch_all_def fold_merge_source_state [symmetric, of s srcs
        nothing_merged] split_def Let_def)
    (simp_all add: fold_merge_source_state)

lemma Sync_meets_floors:
  assumes "lastGood_meets_floors s"
  shows "lastGood_meets_floors (fst (snd (Sync now env srcs s fs)))"
  by (rule lastGood_meets_floors_cong [THEN iffD2, OF _ _ after_fetches_meets_floors [OF assms, of srcs]])
    (simp_all add: Sync_fields)

lemma loop_step_meets_floors: "loop_step x y \<Longrightarrow> lastGood_meets_floors (fst x) \<Longrightarrow> lastGood_meets_floors (fst y)"
  by (induction rule: loop_step.induct) (simp, metis Sync_meets_floors fst_conv snd_conv, simp)

text \<open>
  C22. Whatever the sources answered, the last good rows of a syncer started without a
  snapshot always meet the floors of their source.
\<close>

theorem fallback_always_meets_floors:
  assumes "loop_step\<^sup>*\<^sup>* (New store interval path floors exclude, fs, True) (t, fs', running)"
  shows "lastGood_meets_floors t"
proof -
  have "lastGood_meets_floors (fst (t, fs', running))"
    using assms
  proof (induction rule: rtranclp_induct)
    case base
    then show ?case by (simp add: lastGood_meets_floors_def New_def)
  next
    case (step y z)
    then show ?case by (blast intro: loop_step_meets_floors)
  qed
  then show ?thesis by simp
qed

section \<open>The snapshot file\<close>

definition snapshot_loads :: "string \<Rightarrow> fs \<Rightarrow> bool" where
  "snapshot_loads path fs \<longleftrightarrow> (case LoadSnapshot None path fs of Inl _ \<Rightarrow> False | Inr _ \<Rightarrow> True)"

lemma snapshot_loads_iff:
  "snapshot_loads path fs \<longleftrightarrow>
     path = [] \<or> (\<forall>d. map_of fs path = Some d \<longrightarrow> Option.bind (parse_document d) dec_index \<noteq> None)"
  by (auto simp: snapshot_loads_def LoadSnapshot_def split: option.splits)

lemma Save_snapshot_loads:
  assumes "snapshot_loads path fs" and "st \<in> set (fs # snd (Save env idx path fs))"
  shows "snapshot_loads path st"
proof (cases "path = []")
  case True
  then show ?thesis by (simp add: snapshot_loads_iff)
next
  case False
  then have loc: "snapshot_file path = Some path"
    by (simp add: snapshot_file_def)
  have "map_of fs path = Some d \<or> d = Doc (enc_index idx)" if "map_of st path = Some d" for d
    using index_file.reader_sees [OF loc, of st fs env idx d] assms(2) that by simp
  then show ?thesis
    using assms(1) False by (auto simp: snapshot_loads_iff index_codec.dec_enc)
qed

lemma Sync_states:
  "snd (snd (Sync now env srcs s fs)) = [] \<or>
   (\<exists>idx. snd (snd (Sync now env srcs s fs)) = snd (Save env idx (sy_snapshot s) fs))"
proof -
  have "sy_snapshot (fst (fetch_all srcs s)) = sy_snapshot s"
    by (simp add: fetch_all_def fold_merge_source_state)
  then show ?thesis
    by (auto simp: Sync_def finish_sync_def Let_def split: prod.split)
qed

text \<open>
  C24. At every moment of any number of syncs, in the middle of a save or after a failing
  system call too, a restart can load the snapshot file.
\<close>

theorem snapshot_file_always_loads:
  assumes "loop_step\<^sup>*\<^sup>* (s, fs, True) (t, fs', running)" and "snapshot_loads (sy_snapshot s) fs"
    and "Sync now env srcs t fs' = (idx, u, states)" and "st \<in> set (fs' # states)"
  shows "snapshot_loads (sy_snapshot s) st"
proof -
  have "sy_snapshot (fst y) = sy_snapshot s \<and> snapshot_loads (sy_snapshot s) (fst (snd y))"
    if "loop_step\<^sup>*\<^sup>* (s, fs, True) y" for y
    using that
  proof (induction rule: rtranclp_induct)
    case base
    then show ?case using assms(2) by simp
  next
    case (step x y)
    from step.hyps(2) step.IH show ?case
    proof (induction rule: loop_step.induct)
      case (tick now env srcs r gs idx r' states)
      have "final_state gs states \<in> set (gs # states)"
        by (simp add: final_state_def)
      moreover have "states = [] \<or> (\<exists>i. states = snd (Save env i (sy_snapshot s) gs))"
        using Sync_states [of now env srcs r gs] tick by simp
      moreover have "sy_snapshot r' = sy_snapshot s"
        using Sync_fields(3) [of now env srcs r gs] tick by simp
      ultimately show ?case
        using tick.prems Save_snapshot_loads [of "sy_snapshot s" gs] by auto
    next
      case (stop r gs)
      then show ?case by simp
    qed
  qed
  from this [OF assms(1)] have t: "sy_snapshot t = sy_snapshot s" "snapshot_loads (sy_snapshot s) fs'"
    by simp_all
  have "states = [] \<or> (\<exists>i. states = snd (Save env i (sy_snapshot s) fs'))"
    using Sync_states [of now env srcs t fs'] assms(3) t by simp
  with assms(4) t(2) Save_snapshot_loads [of "sy_snapshot s" fs'] show ?thesis by auto
qed

section \<open>Restarting while an upstream is broken\<close>

lemma index_eq_Memberships:
  assumes "index_wf i" and "index_wf j" and "index_eq i j"
  shows "Memberships i = Memberships j"
  using index_eq_TeamSlugs [OF index_wf_shape [OF assms(1)] index_wf_shape [OF assms(2)] assms(3)]
    index_eq_Members [OF assms]
  by (simp add: Memberships_def)

lemma Memberships_row:
  assumes "index_wf i" and "find_member i slug key = Some m" and "r \<in> set (member_rows slug m)"
  shows "r \<in> set (Memberships i)"
proof -
  have "slug \<in> set (TeamSlugs i)"
    using set_TeamSlugs [OF index_wf_shape [OF assms(1)]] assms(2) by (auto simp: has_team_def)
  moreover have "m \<in> set (Members i slug [])"
    using assms(2) index_wf_key [OF assms(1,2)] by (simp add: set_Members [OF assms(1)])
  ultimately show ?thesis
    using assms(3) by (auto simp: Memberships_def)
qed

text \<open>A person on a team, as an index lists them for a source.\<close>

definition lists :: "string \<Rightarrow> string \<Rightarrow> string \<Rightarrow> index \<Rightarrow> bool" where
  "lists name slug key i \<longleftrightarrow> (case find_member i slug key of None \<Rightarrow> False | Some n \<Rightarrow> name \<in> set (mb_Sources n))"

definition restored :: "index \<Rightarrow> syncer \<Rightarrow> syncer" where
  "restored snap s =
     restoreLastGood (norm_index snap) (s\<lparr>sy_store := Store_Set (sy_store s) (norm_index snap)\<rparr>)"

lemma Start_restored:
  "sy_snapshot s \<noteq> [] \<Longrightarrow> map_of fs (sy_snapshot s) = Some (Doc (enc_index snap)) \<Longrightarrow>
   Start None now env srcs s fs = Sync now env srcs (restored snap s) fs"
  by (simp add: Start_def recover_def LoadSnapshot_doc restored_def)

lemma restored_simps [simp]:
  "Store_Get (sy_store (restored snap s)) = Some (norm_index snap)"
  "sy_exclude (restored snap s) = sy_exclude s"
  "sy_snapshot (restored snap s) = sy_snapshot s"
  "sy_floors (restored snap s) = sy_floors s"
  by (simp_all add: restored_def)

lemma restored_lastGood:
  assumes "index_wf snap"
  shows "lastGoodFor (restored snap s) name =
    (let ms = filter (\<lambda>m. ms_Source m = name) (Memberships snap)
     in if ms = [] then lastGoodFor s name else ms)"
proof -
  have "Memberships (norm_index snap) = Memberships snap"
    using assms by (intro index_eq_Memberships norm_index_wf norm_index_eq) auto
  moreover have "lastGoodFor (s\<lparr>sy_store := st\<rparr>) name = lastGoodFor s name" for st
    by (simp add: lastGoodFor_def)
  ultimately show ?thesis
    by (simp add: restored_def lastGoodFor_restore Let_def)
qed

lemma Memberships_person:
  assumes "index_wf snap" and m: "find_member snap slug key = Some m" and "name \<in> set (mb_Sources m)"
  obtains r where "r \<in> set (Memberships snap)"
    "ms_Handle r \<noteq> []" "ms_Team r = slug" "slug \<noteq> []" "toLower (ms_Handle r) = key" "ms_Source r = name"
proof -
  obtain r where r: "r \<in> set (member_rows slug m)" "ms_Source r = name"
    using assms(3) member_rows_sources [of slug m] by (metis imageE)
  then have "r \<in> set (Memberships snap)"
    using Memberships_row [OF assms(1) m] by simp
  moreover have "slug \<noteq> []"
    using m assms(1) index_shape_team [OF index_wf_shape [OF assms(1)], of slug]
    by (auto simp: find_member_def team_shape_def split: option.splits)
  moreover have "mb_Handle m \<noteq> []" "toLower (mb_Handle m) = key"
    using index_wf_member [OF assms(1) m] by (auto simp: member_wf_def)
  ultimately show thesis
    using that member_rows_fields [OF r(1)] r(2) by metis
qed

lemma restored_row:
  assumes "index_wf snap" and "find_member snap slug key = Some m" and "name \<in> set (mb_Sources m)"
  obtains r where "r \<in> set (lastGoodFor (restored snap s) name)"
    "ms_Handle r \<noteq> []" "ms_Team r = slug" "slug \<noteq> []" "toLower (ms_Handle r) = key" "ms_Source r = name"
proof (rule Memberships_person [OF assms])
  fix r
  assume r: "r \<in> set (Memberships snap)" "ms_Handle r \<noteq> []" "ms_Team r = slug" "slug \<noteq> []"
    "toLower (ms_Handle r) = key" "ms_Source r = name"
  then have "r \<in> set (lastGoodFor (restored snap s) name)"
    by (auto simp: restored_lastGood [OF assms(1)] Let_def filter_empty_conv)
  with r that show thesis by blast
qed

lemma Sync_served:
  assumes "distinct (map fe_Name srcs)" and "Store_Get (sy_store s) = Some good"
    and "Sync now env srcs s fs = (idx, t, states)"
  shows "Store_Get (sy_store t) = Some good \<and> states = [] \<or>
    idx = Build now (contributed s srcs) \<and> Store_Get (sy_store t) = Some idx \<and> \<not> any_starved s srcs \<and>
    (states = [] \<or> states = snd (Save env idx (sy_snapshot s) fs))"
  using Sync_store [OF assms(1), of now env s fs] Sync_disk [OF assms(1), of now env s fs]
    Sync_index [OF assms(1), of now env s fs] assms(2,3)
  by (cases "any_starved s srcs"; cases "ix_Teams (Build now (contributed s srcs)) = []") auto

lemma Save_loads:
  assumes "path \<noteq> []" and "map_of fs path = Some (Doc (enc_index old))"
  shows "LoadSnapshot None path (final_state fs (snd (Save env idx path fs))) \<in>
    {Inr (Some (norm_index old)), Inr (Some (norm_index idx))}"
proof -
  have "snapshot_file path = Some path"
    using assms(1) by (simp add: snapshot_file_def)
  from index_file.outcome [OF this, of fs env idx] show ?thesis
    using assms LoadSnapshot_doc by (auto split: if_splits)
qed

text \<open>The first sync after a recovery serves every member the broken source had.\<close>

lemma restored_sync_keeps:
  assumes "index_wf snap" and "distinct (map fe_Name srcs)" and "src \<in> set srcs" and "fe_Result src = Inl err"
    and "find_member snap slug key = Some m" and "fe_Name src \<in> set (mb_Sources m)"
    and "map_of (sy_exclude s) key \<noteq> Some True"
    and "Sync now env srcs (restored snap s) fs = (idx, t, states)"
  shows "\<exists>n. find_member idx slug key = Some n \<and> fe_Name src \<in> set (mb_Sources n)"
    and "\<exists>i n. Store_Get (sy_store t) = Some i \<and> find_member i slug key = Some n \<and> fe_Name src \<in> set (mb_Sources n)"
proof -
  let ?s = "restored snap s"
  obtain r where r: "r \<in> set (lastGoodFor ?s (fe_Name src))" "ms_Handle r \<noteq> []" "ms_Team r = slug"
    "slug \<noteq> []" "toLower (ms_Handle r) = key" "ms_Source r = fe_Name src"
    using restored_row [OF assms(1,5,6)] by blast
  have "\<exists>n. find_member (fst (Sync now env srcs ?s fs)) (ms_Team r) (toLower (ms_Handle r)) = Some n \<and>
      ms_Source r \<in> set (mb_Sources n)"
    using r assms(7) by (intro contributed_row_indexed [OF assms(2,3)])
      (simp_all add: failed_contribution [OF assms(4)])
  then show n: "\<exists>n. find_member idx slug key = Some n \<and> fe_Name src \<in> set (mb_Sources n)"
    using r assms(8) by auto
  have old: "find_member (norm_index snap) slug key = Some m"
    using assms(1,5) by (simp add: norm_index_find index_wf_shape)
  have good: "Store_Get (sy_store ?s) = Some (norm_index snap)"
    by simp
  from Sync_served [OF assms(2) good assms(8)] n old assms(6)
  show "\<exists>i n. Store_Get (sy_store t) = Some i \<and> find_member i slug key = Some n \<and> fe_Name src \<in> set (mb_Sources n)"
    by auto
qed

text \<open>
  C5. A process that restarts from a snapshot file while a source is broken keeps every
  person that source contributed, in the index it serves and in the file it leaves on
  disk, unless the person is excluded.
\<close>

theorem restart_keeps_broken_source:
  assumes "index_wf snap" and "sy_snapshot s \<noteq> []"
    and "map_of fs (sy_snapshot s) = Some (Doc (enc_index snap))"
    and "distinct (map fe_Name srcs)" and "src \<in> set srcs" and "fe_Result src = Inl err"
    and "find_member snap slug key = Some m" and "fe_Name src \<in> set (mb_Sources m)"
    and "map_of (sy_exclude s) key \<noteq> Some True"
    and "Start None now env srcs s fs = (idx, t, states)"
  shows "(\<exists>i n. Store_Get (sy_store t) = Some i \<and> find_member i slug key = Some n \<and>
      fe_Name src \<in> set (mb_Sources n)) \<and>
    (\<exists>j n. LoadSnapshot None (sy_snapshot s) (final_state fs states) = Inr (Some j) \<and>
      find_member j slug key = Some n \<and> fe_Name src \<in> set (mb_Sources n))"
proof -
  let ?s = "restored snap s"
  have sync: "Sync now env srcs ?s fs = (idx, t, states)"
    using assms(10) Start_restored [OF assms(2,3)] by simp
  obtain n where n: "find_member idx slug key = Some n" "fe_Name src \<in> set (mb_Sources n)"
    using restored_sync_keeps(1) [OF assms(1,4-9) sync] by blast
  have old: "find_member (norm_index snap) slug key = Some m"
    using assms(1,7) by (simp add: norm_index_find index_wf_shape)
  have load_old: "LoadSnapshot None (sy_snapshot s) fs = Inr (Some (norm_index snap))"
    using LoadSnapshot_doc [OF assms(2,3)] .
  have good: "Store_Get (sy_store ?s) = Some (norm_index snap)"
    by simp
  from Sync_served [OF assms(4) good sync] show ?thesis
  proof (elim disjE conjE)
    assume "Store_Get (sy_store t) = Some (norm_index snap)" and "states = []"
    with old load_old assms(8) show ?thesis by auto
  next
    assume idx: "idx = Build now (contributed ?s srcs)" and "Store_Get (sy_store t) = Some idx"
      and "states = []"
    with n old load_old assms(8) show ?thesis by auto
  next
    assume idx: "idx = Build now (contributed ?s srcs)" and "Store_Get (sy_store t) = Some idx"
      and "states = snd (Save env idx (sy_snapshot ?s) fs)"
    moreover have "find_member (norm_index idx) = find_member idx"
      unfolding idx by (rule norm_index_find [OF Build_index_shape])
    ultimately show ?thesis
      using n old assms(8) Save_loads [OF assms(2,3), of env idx] by auto
  qed
qed

section \<open>What a failing source contributes\<close>

text \<open>The rows kept for a source, and those it brings, carry its name.\<close>

definition own_rows :: "syncer \<Rightarrow> bool" where
  "own_rows s \<longleftrightarrow> (\<forall>name. \<forall>r\<in>set (lastGoodFor s name). ms_Source r = name)"

definition own_results :: "fetched list \<Rightarrow> bool" where
  "own_results srcs \<longleftrightarrow>
     (\<forall>g\<in>set srcs. \<forall>rows. fe_Result g = Inr rows \<longrightarrow> ms_Source ` set rows \<subseteq> {fe_Name g})"

lemma restore_own_rows: "own_rows s \<Longrightarrow> own_rows (restoreLastGood i s)"
  by (auto simp: own_rows_def lastGoodFor_restore Let_def)

lemma store_own_rows: "own_rows s \<Longrightarrow> own_rows (s\<lparr>sy_store := st\<rparr>)"
  by (simp add: own_rows_def lastGoodFor_def)

lemma rows_for_listed:
  assumes "index_wf i" and "r \<in> set (rows_for slug key (Memberships i))"
  shows "lists (ms_Source r) slug key i"
proof -
  obtain m where "find_member i slug key = Some m" "r \<in> set (member_rows slug m)"
    using assms(2) by (cases "find_member i slug key") (auto simp: rows_for_Memberships [OF assms(1)])
  then show ?thesis
    using member_rows_sources [of slug m] by (auto simp: lists_def)
qed

lemma Build_lists_row:
  assumes "lists name slug key (Build now rows)"
  obtains r where "r \<in> set (rows_for slug key rows)" "ms_Source r = name"
proof -
  obtain n where n: "find_member (Build now rows) slug key = Some n" "name \<in> set (mb_Sources n)"
    using assms by (auto simp: lists_def split: option.splits)
  then have "mb_Sources n = sorted_list_of_set (ms_Source ` set (rows_for slug key rows))"
    by (cases "rows_for slug key rows") (auto simp: Build_find_member member_spec_def)
  with n(2) have "name \<in> ms_Source ` set (rows_for slug key rows)" by simp
  with that show thesis by blast
qed

lemma contributed_by:
  assumes "r \<in> set (contributed s srcs)" and "own_rows s"
    and "own_results srcs"
  obtains g where "g \<in> set srcs" "r \<in> set (contribution s g)" "ms_Source r = fe_Name g"
proof -
  obtain g where g: "g \<in> set srcs" "r \<in> set (contribution s g)"
    using assms(1) by (auto simp: in_contributed)
  have "ms_Source r = fe_Name g"
  proof (cases "accepted s g")
    case None
    with g(2) assms(2) show ?thesis by (simp add: contribution_def own_rows_def)
  next
    case (Some rows)
    then have "fe_Result g = Inr rows"
      by (auto simp: accepted_def split: sum.splits if_splits)
    with assms(3) g Some show ?thesis
      by (auto simp: contribution_def own_results_def image_subset_iff)
  qed
  with g that show thesis by blast
qed

text \<open>What is served of a source that fails is what the last good rows of the source say.\<close>

lemma sync_lists_last_good:
  assumes "distinct (map fe_Name srcs)" and "own_rows s"
    and "own_results srcs"
    and "f \<in> set srcs" and "fe_Result f = Inl err"
    and "lists (fe_Name f) slug key (Build now (contributed s srcs))"
  obtains r where "r \<in> set (rows_for slug key (lastGoodFor s (fe_Name f)))" "ms_Source r = fe_Name f"
proof -
  obtain r where r: "r \<in> set (rows_for slug key (contributed s srcs))" "ms_Source r = fe_Name f"
    by (rule Build_lists_row [OF assms(6)])
  then have "r \<in> set (contributed s srcs)"
    by (simp add: rows_for_def)
  then obtain g where g: "g \<in> set srcs" "r \<in> set (contribution s g)" "ms_Source r = fe_Name g"
    by (rule contributed_by [OF _ assms(2,3)])
  have "g = f"
    by (rule distinct_names_unique [OF assms(1) g(1) assms(4)]) (metis g(3) r(2))
  then have "r \<in> set (lastGoodFor s (fe_Name f))"
    using g(2) failed_contribution [OF assms(5), of s] by simp
  then have "r \<in> set (rows_for slug key (lastGoodFor s (fe_Name f)))"
    using r(1) unfolding rows_for_def set_filter by blast
  then show thesis by (rule that) (rule r(2))
qed

section \<open>Concrete syncs\<close>

definition ada_row :: membership where
  "ada_row = \<lparr>ms_Handle = ''Ada'', ms_Team = ''geth'', ms_Source = ''manual'', ms_Org = [], ms_Name = []\<rparr>"

definition bob_row :: membership where
  "bob_row = \<lparr>ms_Handle = ''bob'', ms_Team = ''reth'', ms_Source = ''protocol-guild'', ms_Org = [], ms_Name = []\<rparr>"

definition manual_up :: fetched where
  "manual_up = \<lparr>fe_Name = ''manual'', fe_Result = Inr [ada_row], fe_Warnings = [], fe_started = 1, fe_finished = 2\<rparr>"

definition guild_down :: fetched where
  "guild_down = \<lparr>fe_Name = ''protocol-guild'', fe_Result = Inl ''status 503'', fe_Warnings = [],
     fe_started = 1, fe_finished = 2\<rparr>"

definition cold :: syncer where
  "cold = New NewStore 60 ''/s.json'' [] [(''eve'', True)]"

definition warm :: syncer where
  "warm = cold\<lparr>sy_store := Store_Set NewStore (Build 1 [ada_row, bob_row]),
               sy_lastGood := [(''protocol-guild'', [bob_row])]\<rparr>"

definition published :: syncer where
  "published = cold\<lparr>sy_store := Store_Set NewStore (Build 1 [ada_row, bob_row])\<rparr>"

lemmas concrete = ada_row_def bob_row_def manual_up_def guild_down_def cold_def warm_def published_def New_def

lemma two_sources: "distinct (map fe_Name [manual_up, guild_down])"
  by (simp add: concrete)

lemma Sync_triple: "Sync now env srcs s fs =
    (fst (Sync now env srcs s fs), fst (snd (Sync now env srcs s fs)), snd (snd (Sync now env srcs s fs)))"
  by simp

lemma Start_triple: "Start e now env srcs s fs =
    (fst (Start e now env srcs s fs), fst (snd (Start e now env srcs s fs)), snd (snd (Start e now env srcs s fs)))"
  by simp

lemma guild_starved: "is_starved cold guild_down" "is_starved published guild_down"
  by (simp_all add: is_starved_def accepted_def lastGoodFor_def concrete)



theorem starved_sync_keeps_good_state_sample:
  "Store_Get (sy_store (fst (snd (Sync 5 healthy_disk [manual_up, guild_down] published [])))) =
     Some (Build 1 [ada_row, bob_row])"
  using starved_sync_keeps_good_state [OF two_sources _ guild_starved(2) _ Sync_triple,
      of "Build 1 [ada_row, bob_row]" 5 healthy_disk "[]"]
  by (simp add: published_def)

theorem first_starved_sync_is_served_not_saved_sample:
  "Store_Get (sy_store (fst (snd (Sync 5 healthy_disk [manual_up, guild_down] cold [])))) =
     Some (fst (Sync 5 healthy_disk [manual_up, guild_down] cold []))"
  using first_starved_sync_is_served_not_saved [OF two_sources _ guild_starved(1) _ Sync_triple,
      of 5 healthy_disk "[]"]
  by (simp add: cold_def New_def)

lemma warm_populated: "populated warm"
  by code_simp

lemma tick_once:
  "loop_step\<^sup>*\<^sup>* (s, fs, True) (fst (snd (Sync now env srcs s fs)),
     final_state fs (snd (snd (Sync now env srcs s fs))), True)"
  by (rule r_into_rtranclp) (rule loop_step.tick [OF Sync_triple])

theorem served_index_never_emptied_sample:
  "populated (fst (snd (Sync 5 healthy_disk [guild_down] warm [])))"
  by (rule served_index_never_emptied [OF tick_once warm_populated])

lemma outage_never_drops_a_row_sample:
  "\<exists>m. find_member (fst (Sync 5 healthy_disk [manual_up, guild_down] warm [])) ''reth'' ''bob'' = Some m"
  using outage_never_drops_a_row [OF two_sources, of guild_down "''status 503''" bob_row warm 5 healthy_disk "[]"]
  by (auto simp: guild_down_def bob_row_def warm_def cold_def New_def lastGoodFor_def toLower_def
      lower_char_def less_eq_char_def)

theorem fallback_always_meets_floors_sample:
  "lastGood_meets_floors (fst (snd (Sync 5 healthy_disk [manual_up]
     (New NewStore 60 ''/s.json'' [(''manual'', \<lparr>fl_MinMembers = 1, fl_MinTeams = 1\<rparr>)] []) [])))"
  by (rule fallback_always_meets_floors [OF tick_once])

definition snap_doc :: fs where
  "snap_doc = [(''/s.json'', Doc (enc_index (Build 1 [ada_row, bob_row])))]"

theorem snapshot_file_always_loads_sample:
  "snapshot_loads ''/s.json'' (final_state snap_doc (snd (snd (Sync 5 healthy_disk [manual_up] warm snap_doc))))"
proof -
  have path: "sy_snapshot warm = ''/s.json''"
    by (simp add: warm_def cold_def New_def)
  have "snapshot_loads ''/s.json'' snap_doc"
    by (simp add: snapshot_loads_iff snap_doc_def index_codec.dec_enc)
  moreover have "final_state snap_doc (snd (snd (Sync 5 healthy_disk [manual_up] warm snap_doc)))
      \<in> set (snap_doc # snd (snd (Sync 5 healthy_disk [manual_up] warm snap_doc)))"
    by (simp add: final_state_def)
  ultimately show ?thesis
    using snapshot_file_always_loads [OF rtranclp.rtrancl_refl _ Sync_triple, of warm snap_doc] path by simp
qed

theorem restart_keeps_broken_source_sample:
  "\<exists>i n. Store_Get (sy_store (fst (snd (Start None 9 healthy_disk [manual_up, guild_down] cold snap_doc)))) = Some i \<and>
     find_member i ''reth'' ''bob'' = Some n \<and> ''protocol-guild'' \<in> set (mb_Sources n)"
proof -
  let ?snap = "Build 1 [ada_row, bob_row]"
  let ?m = "\<lparr>mb_Handle = ''bob'', mb_Name = [], mb_Sources = [''protocol-guild''], mb_Orgs = []\<rparr>"
  have m: "find_member ?snap ''reth'' ''bob'' = Some ?m"
    by code_simp
  have path: "sy_snapshot cold \<noteq> []"
    and doc: "map_of snap_doc (sy_snapshot cold) = Some (Doc (enc_index ?snap))"
    and kept: "map_of (sy_exclude cold) ''bob'' \<noteq> Some True"
    by (simp_all add: cold_def New_def snap_doc_def)
  have down: "guild_down \<in> set [manual_up, guild_down]" "fe_Result guild_down = Inl ''status 503''"
    and src: "fe_Name guild_down \<in> set (mb_Sources ?m)" and name: "fe_Name guild_down = ''protocol-guild''"
    by (simp_all add: guild_down_def)
  show ?thesis
    using restart_keeps_broken_source [OF Build_index_wf path doc two_sources down m src kept Start_triple,
        of 9 healthy_disk] unfolding name by blast
qed

end
