(* ===== verification/Cluster.thy ===== *)
theory Cluster
  imports PgStore Keys Reader SyncerProps
begin

text \<open>
  \<open>cmd/coredevs/cluster.go\<close>: the writer's \<open>publisher\<close>, the recovery of the last
  published index, and the readers' \<open>poller\<close>, with the cluster they form as a step
  relation in which a poll and a publication interleave.
\<close>

section \<open>The writer\<close>

text \<open>
  What one publication observes: the clock read for the generation and for \<open>GeneratedAt\<close>, the
  marshaller, and the database.
\<close>

record publish_env =
  pv_clock :: time
  pv_now :: time
  pv_marshal :: "error option"
  pv_answer :: pg_answer

definition live_snapshot ::
    "publish_env \<Rightarrow> index \<Rightarrow> cache option \<Rightarrow> source_status list \<Rightarrow> snapshot" where
  "live_snapshot env idx kc statuses =
     \<lparr>sn_Generation = word_of_int (pv_clock env), sn_GeneratedAt = pv_now env, sn_Index = Some idx,
      sn_Keys = map_option Cache_Snapshot kc, sn_Sources = Some statuses\<rparr>"

definition publish_snapshot :: "publish_env \<Rightarrow> snapshot \<Rightarrow> db \<Rightarrow> db" where
  "publish_snapshot env snap db =
     (case Marshal (pv_marshal env) snap of
        Inl _ \<Rightarrow> db
      | Inr data \<Rightarrow> snd (Pg_Save (pv_answer env) (pv_now env) (sn_Generation snap) data db))"

definition publish ::
    "publish_env \<Rightarrow> store \<Rightarrow> cache option \<Rightarrow> source_status list \<Rightarrow> db \<Rightarrow> db" where
  "publish env st kc statuses db =
     (case Store_Get st of
        None \<Rightarrow> db
      | Some idx \<Rightarrow> publish_snapshot env (live_snapshot env idx kc statuses) db)"

definition loadPublishedIndex :: "pg_answer \<Rightarrow> db \<Rightarrow> index option" where
  "loadPublishedIndex ans db =
     (case Pg_Load ans db of
        Inl _ \<Rightarrow> None
      | Inr None \<Rightarrow> None
      | Inr (Some snap) \<Rightarrow>
          (case Unmarshal (pr_Data snap) of
             Inl _ \<Rightarrow> None
           | Inr parsed \<Rightarrow> sn_Index parsed))"

section \<open>A reader\<close>

text \<open>\<open>po_statuses\<close> is \<open>atomicStatuses\<close>, nil until a snapshot is loaded.\<close>

record poller =
  po_index :: store
  po_keys :: reader
  po_statuses :: "source_status list option"
  po_lastGen :: "64 word"

definition newPoller :: poller where
  "newPoller = \<lparr>po_index = NewStore, po_keys = NewReader, po_statuses = None, po_lastGen = 0\<rparr>"

text \<open>
  \<open>load\<close> in its parts: the cheap look at the generation (\<open>Some gen\<close> when there is something to
  load), the snapshot read back, and the four assignments that swap it in one after the other.
  The database may change between the first two, and requests are served between any two.
\<close>

definition Poller_check :: "pg_answer \<Rightarrow> db \<Rightarrow> poller \<Rightarrow> error + (64 word) option" where
  "Poller_check ans db p =
     (case Pg_Generation ans db of
        Inl e \<Rightarrow> Inl e
      | Inr None \<Rightarrow> Inr None
      | Inr (Some gen) \<Rightarrow> if gen = po_lastGen p then Inr None else Inr (Some gen))"

definition Poller_read :: "pg_answer \<Rightarrow> db \<Rightarrow> error + snapshot option" where
  "Poller_read ans db =
     (case Pg_Load ans db of
        Inl e \<Rightarrow> Inl e
      | Inr None \<Rightarrow> Inr None
      | Inr (Some snap) \<Rightarrow> map_sum (\<lambda>e. e) Some (Unmarshal (pr_Data snap)))"

datatype swap = Swap_index | Swap_keys | Swap_statuses | Swap_generation

fun swap_in :: "64 word \<Rightarrow> snapshot \<Rightarrow> swap \<Rightarrow> poller \<Rightarrow> poller" where
  "swap_in gen parsed Swap_index p =
     (case sn_Index parsed of None \<Rightarrow> p | Some idx \<Rightarrow> p\<lparr>po_index := Store_Set (po_index p) idx\<rparr>)"
| "swap_in gen parsed Swap_keys p =
     p\<lparr>po_keys := Reader_Replace (case sn_Keys parsed of None \<Rightarrow> [] | Some ks \<Rightarrow> ks)
         (sn_GeneratedAt parsed) (po_keys p)\<rparr>"
| "swap_in gen parsed Swap_statuses p = p\<lparr>po_statuses := sn_Sources parsed\<rparr>"
| "swap_in gen parsed Swap_generation p = p\<lparr>po_lastGen := gen\<rparr>"

definition all_swaps :: "swap list" where
  "all_swaps = [Swap_index, Swap_keys, Swap_statuses, Swap_generation]"

definition swap_all :: "64 word \<Rightarrow> snapshot \<Rightarrow> swap list \<Rightarrow> poller \<Rightarrow> poller" where
  "swap_all gen parsed swaps p = fold (swap_in gen parsed) swaps p"

definition Poller_fetch :: "pg_answer \<Rightarrow> db \<Rightarrow> 64 word \<Rightarrow> poller \<Rightarrow> error option \<times> poller" where
  "Poller_fetch ans db gen p =
     (case Poller_read ans db of
        Inl e \<Rightarrow> (Some e, p)
      | Inr None \<Rightarrow> (None, p)
      | Inr (Some parsed) \<Rightarrow> (None, swap_all gen parsed all_swaps p))"

text \<open>A \<open>load\<close> that nothing interrupts.\<close>

definition Poller_load ::
    "pg_answer \<Rightarrow> db \<Rightarrow> pg_answer \<Rightarrow> db \<Rightarrow> poller \<Rightarrow> error option \<times> poller" where
  "Poller_load ans db ans' db' p =
     (case Poller_check ans db p of
        Inl e \<Rightarrow> (Some e, p)
      | Inr None \<Rightarrow> (None, p)
      | Inr (Some gen) \<Rightarrow> Poller_fetch ans' db' gen p)"

section \<open>The cluster\<close>

text \<open>
  Where a reader is in its \<open>load\<close>: between two polls, past the look at the generation, or
  swapping a snapshot in, with the assignments still to come.
\<close>

datatype load_phase = Resting | Checked "64 word" | Swapping "64 word" snapshot "swap list"

record reading =
  rp_poller :: poller
  rp_phase :: load_phase

definition new_reading :: reading where
  "new_reading = \<lparr>rp_poller = newPoller, rp_phase = Resting\<rparr>"

text \<open>
  The database, the readers by number and, as a record of the past, the snapshots the writers tried
  to publish, the latest first. Nothing here says how many writers there are.
\<close>

record cluster =
  cl_db :: db
  cl_published :: "snapshot list"
  cl_readers :: "nat \<Rightarrow> reading"

definition generations :: "snapshot list \<Rightarrow> (64 word) list" where
  "generations snaps = map sn_Generation snaps"

text \<open>One step of the reader with the poller \<open>p\<close>; a reader may be replaced by a new one at any time.\<close>

inductive reader_step :: "db \<Rightarrow> reading \<Rightarrow> reading \<Rightarrow> bool" for db :: db where
  checks:
    "Poller_check ans db p = Inr (Some gen) \<Longrightarrow>
     reader_step db \<lparr>rp_poller = p, rp_phase = Resting\<rparr> \<lparr>rp_poller = p, rp_phase = Checked gen\<rparr>"
| reads:
    "Poller_read ans db = Inr (Some parsed) \<Longrightarrow>
     reader_step db \<lparr>rp_poller = p, rp_phase = Checked gen\<rparr> \<lparr>rp_poller = p, rp_phase = Swapping gen parsed all_swaps\<rparr>"
| fails:
    "Poller_read ans db = Inl err \<or> Poller_read ans db = Inr None \<Longrightarrow>
     reader_step db \<lparr>rp_poller = p, rp_phase = Checked gen\<rparr> \<lparr>rp_poller = p, rp_phase = Resting\<rparr>"
| swaps:
    "reader_step db \<lparr>rp_poller = p, rp_phase = Swapping gen parsed (x # todo)\<rparr>
       \<lparr>rp_poller = swap_in gen parsed x p, rp_phase = Swapping gen parsed todo\<rparr>"
| rests:
    "reader_step db \<lparr>rp_poller = p, rp_phase = Swapping gen parsed []\<rparr> \<lparr>rp_poller = p, rp_phase = Resting\<rparr>"
| restarts: "reader_step db rd new_reading"

inductive cluster_step :: "cluster \<Rightarrow> cluster \<Rightarrow> bool" where
  migrates:
    "snd (Pg_ensureSchema ans (cl_db c)) = db' \<Longrightarrow> cluster_step c (c\<lparr>cl_db := db'\<rparr>)"
| publishes:
    "snap = live_snapshot env idx kc statuses \<Longrightarrow>
     sn_Generation snap \<noteq> 0 \<Longrightarrow> sn_Generation snap \<notin> set (generations (cl_published c)) \<Longrightarrow>
     publish_snapshot env snap (cl_db c) = db' \<Longrightarrow>
     cluster_step c (c\<lparr>cl_db := db', cl_published := snap # cl_published c\<rparr>)"
| polls:
    "reader_step (cl_db c) (cl_readers c i) rd \<Longrightarrow>
     cluster_step c (c\<lparr>cl_readers := (cl_readers c)(i := rd)\<rparr>)"

definition new_cluster :: cluster where
  "new_cluster = \<lparr>cl_db = No_table, cl_published = [], cl_readers = (\<lambda>_. new_reading)\<rparr>"

section \<open>What a reader serves\<close>

text \<open>The parts of a snapshot that a reader has taken over, and all of them.\<close>

definition index_of :: "snapshot \<Rightarrow> poller \<Rightarrow> bool" where
  "index_of s p \<longleftrightarrow> Store_Get (po_index p) = map_option norm_index (sn_Index s)"

definition keys_of_snapshot :: "snapshot \<Rightarrow> poller \<Rightarrow> bool" where
  "keys_of_snapshot s p \<longleftrightarrow> po_keys p =
     \<lparr>rd_entries = (case sn_Keys s of None \<Rightarrow> [] | Some m \<Rightarrow> sorted_map (\<lambda>e. e) m),
      rd_generatedAt = sn_GeneratedAt s, rd_loaded = True\<rparr>"

definition statuses_of :: "snapshot \<Rightarrow> poller \<Rightarrow> bool" where
  "statuses_of s p \<longleftrightarrow> po_statuses p = sn_Sources s"

definition serves :: "poller \<Rightarrow> snapshot \<Rightarrow> bool" where
  "serves p s \<longleftrightarrow> index_of s p \<and> keys_of_snapshot s p \<and> statuses_of s p"

lemmas serves_defs = serves_def index_of_def keys_of_snapshot_def statuses_of_def

definition row_of :: "snapshot \<Rightarrow> row \<Rightarrow> bool" where
  "row_of s r \<longleftrightarrow> pr_Generation r = sn_Generation s \<and> pr_Data r = Doc (enc_snapshot s)"

lemma Unmarshal_enc [simp]: "Unmarshal (Doc (enc_snapshot s)) = Inr (norm_snapshot s)"
  by (simp add: Unmarshal_def snapshot_codec.dec_enc)

lemma norm_snapshot_simps [simp]:
  "sn_Generation (norm_snapshot s) = sn_Generation s" "sn_GeneratedAt (norm_snapshot s) = sn_GeneratedAt s"
  "sn_Index (norm_snapshot s) = map_option norm_index (sn_Index s)"
  "sn_Keys (norm_snapshot s) = map_option (sorted_map (\<lambda>e. e)) (sn_Keys s)"
  "sn_Sources (norm_snapshot s) = sn_Sources s"
  by (simp_all add: norm_snapshot_def)

lemma swap_simps:
  "sn_Index s \<noteq> None \<Longrightarrow> index_of s (swap_in gen (norm_snapshot s) Swap_index p)"
  "keys_of_snapshot s (swap_in gen (norm_snapshot s) Swap_keys p)"
  "statuses_of s (swap_in gen (norm_snapshot s) Swap_statuses p)"
  by (auto simp: index_of_def keys_of_snapshot_def statuses_of_def Reader_Replace_def split: option.splits)

lemma swap_frame:
  "x \<noteq> Swap_index \<Longrightarrow> po_index (swap_in gen parsed x p) = po_index p"
  "x \<noteq> Swap_keys \<Longrightarrow> po_keys (swap_in gen parsed x p) = po_keys p"
  "x \<noteq> Swap_statuses \<Longrightarrow> po_statuses (swap_in gen parsed x p) = po_statuses p"
  "x \<noteq> Swap_generation \<Longrightarrow> po_lastGen (swap_in gen parsed x p) = po_lastGen p"
  by (cases x; simp split: option.split)+

lemma swap_parts:
  "x \<noteq> Swap_index \<Longrightarrow> index_of t (swap_in gen parsed x p) \<longleftrightarrow> index_of t p"
  "x \<noteq> Swap_keys \<Longrightarrow> keys_of_snapshot t (swap_in gen parsed x p) \<longleftrightarrow> keys_of_snapshot t p"
  "x \<noteq> Swap_statuses \<Longrightarrow> statuses_of t (swap_in gen parsed x p) \<longleftrightarrow> statuses_of t p"
  by (simp_all add: index_of_def keys_of_snapshot_def statuses_of_def swap_frame)

lemma swap_all_simps:
  "swap_all gen parsed [] p = p"
  "swap_all gen parsed (x # swaps) p = swap_all gen parsed swaps (swap_in gen parsed x p)"
  by (simp_all add: swap_all_def)

lemma swap_all_serves:
  assumes "sn_Index s \<noteq> None"
  shows "serves (swap_all gen (norm_snapshot s) all_swaps p) s"
    and "po_lastGen (swap_all gen (norm_snapshot s) all_swaps p) = gen"
  by (simp_all add: serves_def all_swaps_def swap_all_simps swap_parts swap_simps assms del: swap_in.simps)
    simp

lemma Pg_Load_Inr: "Pg_Load ans db = Inr q \<Longrightarrow> db = Table q"
  by (auto simp: Pg_Load_def query_row_def split: pg_answer.splits db.splits)

lemma Pg_Generation_Inr: "Pg_Generation ans db = Inr q \<Longrightarrow> \<exists>r. db = Table r \<and> q = map_option pr_Generation r"
  by (auto simp: Pg_Generation_def query_row_def split: pg_answer.splits db.splits sum.splits)

lemma Poller_check_gen:
  assumes "Poller_check ans db p = Inr (Some gen)"
  obtains r where "db = Table (Some r)" "gen = pr_Generation r" "gen \<noteq> po_lastGen p"
proof -
  have "Pg_Generation ans db = Inr (Some gen)" and "gen \<noteq> po_lastGen p"
    using assms by (auto simp: Poller_check_def split: sum.splits option.splits if_splits)
  then show thesis
    using Pg_Generation_Inr that by (metis map_option_eq_Some)
qed

lemma Poller_read_row:
  assumes "Poller_read ans db = Inr (Some parsed)"
  obtains r where "db = Table (Some r)" "Unmarshal (pr_Data r) = Inr parsed"
proof -
  from assms obtain r where "Pg_Load ans db = Inr (Some r)" "Unmarshal (pr_Data r) = Inr parsed"
    unfolding Poller_read_def
    by (cases "Pg_Load ans db"; cases "projr (Pg_Load ans db)"; cases "Unmarshal (pr_Data (the (projr (Pg_Load ans db))))") auto
  with Pg_Load_Inr that show thesis by blast
qed

lemma answered_queries:
  "Pg_Load Answered (Table q) = Inr q" "Pg_Generation Answered (Table q) = Inr (map_option pr_Generation q)"
  by (simp_all add: Pg_Load_def Pg_Generation_def query_row_def)

lemma answered_read: "row_of s r \<Longrightarrow> Poller_read Answered (Table (Some r)) = Inr (Some (norm_snapshot s))"
  by (simp add: Poller_read_def answered_queries row_of_def)

lemma Poller_fetch_row:
  assumes "Pg_Load ans db = Inr (Some r)" and "row_of s r" and "sn_Index s \<noteq> None"
  shows "\<exists>p'. Poller_fetch ans db gen p = (None, p') \<and> serves p' s \<and> po_lastGen p' = gen"
  using assms(1,2) swap_all_serves [OF assms(3), of gen p]
  by (simp add: Poller_fetch_def Poller_read_def row_of_def)

lemma publish_snapshot_db:
  "publish_snapshot env snap db = db \<or>
   (\<exists>r. publish_snapshot env snap db = Table (Some r) \<and> row_of snap r)"
  by (auto simp: publish_snapshot_def Marshal_def Pg_Save_def row_of_def Let_def
      split: option.splits sum.splits db.splits pg_answer.splits)

lemma publish_db:
  "Store_Get st = Some idx \<Longrightarrow>
   publish env st kc statuses db = db \<or>
   (\<exists>r. publish env st kc statuses db = Table (Some r) \<and> row_of (live_snapshot env idx kc statuses) r)"
  by (simp add: publish_def publish_snapshot_db)

end
