(* ===== verification/ClusterProps.thy ===== *)
theory ClusterProps
  imports Cluster
begin

text \<open>
  The invariant of the cluster (\<open>cluster_ok\<close>) and what it gives: what a reader serves in the
  middle of a load and between two loads, and when the generation tells it the truth.
\<close>

section \<open>The invariant\<close>

text \<open>The row of the database, and the snapshots published so far.\<close>

definition db_ok :: "db \<Rightarrow> snapshot list \<Rightarrow> bool" where
  "db_ok db snaps \<longleftrightarrow>
     (\<forall>r. db = Table (Some r) \<longrightarrow> (\<exists>s\<in>set snaps. row_of s r)) \<and>
     distinct (generations snaps) \<and> 0 \<notin> set (generations snaps) \<and> (\<forall>s\<in>set snaps. sn_Index s \<noteq> None)"

text \<open>
  A poller between two loads has loaded nothing, or serves one snapshot. The generation it
  remembers may be older than that snapshot, but not equal to the row's without serving the row.
\<close>

definition poller_ok :: "db \<Rightarrow> snapshot list \<Rightarrow> poller \<Rightarrow> bool" where
  "poller_ok db snaps p \<longleftrightarrow> p = newPoller \<or>
     po_lastGen p \<in> set (generations snaps) \<and> (\<exists>s\<in>set snaps. serves p s) \<and>
     (\<forall>r. db = Table (Some r) \<longrightarrow> pr_Generation r = po_lastGen p \<longrightarrow> (\<exists>s\<in>set snaps. row_of s r \<and> serves p s))"

definition swapping_ok ::
    "db \<Rightarrow> snapshot list \<Rightarrow> 64 word \<Rightarrow> snapshot \<Rightarrow> swap list \<Rightarrow> poller \<Rightarrow> bool" where
  "swapping_ok db snaps gen parsed todo p \<longleftrightarrow>
     (\<exists>s\<in>set snaps. parsed = norm_snapshot s \<and>
        (\<forall>r. db = Table (Some r) \<longrightarrow> pr_Generation r = gen \<longrightarrow> row_of s r)) \<and>
     (\<exists>p0 swapped. poller_ok db snaps p0 \<and> swapped @ todo = all_swaps \<and> p = swap_all gen parsed swapped p0)"

fun reading_ok :: "db \<Rightarrow> snapshot list \<Rightarrow> reading \<Rightarrow> bool" where
  "reading_ok db snaps \<lparr>rp_poller = p, rp_phase = Resting\<rparr> \<longleftrightarrow> poller_ok db snaps p"
| "reading_ok db snaps \<lparr>rp_poller = p, rp_phase = Checked gen\<rparr> \<longleftrightarrow>
     poller_ok db snaps p \<and> gen \<in> set (generations snaps)"
| "reading_ok db snaps \<lparr>rp_poller = p, rp_phase = Swapping gen parsed todo\<rparr> \<longleftrightarrow>
     gen \<in> set (generations snaps) \<and> swapping_ok db snaps gen parsed todo p"

definition cluster_ok :: "cluster \<Rightarrow> bool" where
  "cluster_ok c \<longleftrightarrow> db_ok (cl_db c) (cl_published c) \<and>
     (\<forall>i. reading_ok (cl_db c) (cl_published c) (cl_readers c i))"

lemma generations_simps [simp]:
  "generations [] = []" "generations (s # snaps) = sn_Generation s # generations snaps"
  by (simp_all add: generations_def)

lemma in_generations: "s \<in> set snaps \<Longrightarrow> sn_Generation s \<in> set (generations snaps)"
  by (simp add: generations_def)

lemma same_generation:
  "distinct (generations snaps) \<Longrightarrow> s \<in> set snaps \<Longrightarrow> t \<in> set snaps \<Longrightarrow>
   sn_Generation s = sn_Generation t \<Longrightarrow> s = t"
  by (auto simp: generations_def distinct_map dest: inj_onD)

lemma db_okD:
  assumes "db_ok db snaps"
  shows "db = Table (Some r) \<Longrightarrow> \<exists>s\<in>set snaps. row_of s r"
    and "s \<in> set snaps \<Longrightarrow> sn_Index s \<noteq> None" and "0 \<notin> set (generations snaps)"
    and "s \<in> set snaps \<Longrightarrow> t \<in> set snaps \<Longrightarrow> row_of s r \<Longrightarrow> row_of t r \<Longrightarrow> s = t"
  using assms same_generation by (auto simp: db_ok_def row_of_def)

lemma reading_ok_new: "reading_ok db snaps new_reading"
  by (simp add: new_reading_def poller_ok_def)

lemma new_cluster_ok: "cluster_ok new_cluster"
  by (simp add: cluster_ok_def new_cluster_def db_ok_def reading_ok_new)

section \<open>A step of a reader\<close>

lemma read_snapshot:
  assumes "db_ok db snaps" and "Poller_read ans db = Inr (Some parsed)"
  obtains r s where "db = Table (Some r)" "s \<in> set snaps" "row_of s r" "parsed = norm_snapshot s"
proof (rule Poller_read_row [OF assms(2)])
  fix r
  assume r: "db = Table (Some r)" "Unmarshal (pr_Data r) = Inr parsed"
  then obtain s where "s \<in> set snaps" "row_of s r"
    using db_okD(1) [OF assms(1)] by blast
  with r that show thesis by (simp add: row_of_def)
qed

lemma swapped_all_ok:
  assumes "db_ok db snaps" and "gen \<in> set (generations snaps)" and "swapping_ok db snaps gen parsed [] p"
  shows "poller_ok db snaps p"
proof -
  obtain s p0 where s: "s \<in> set snaps" "\<And>r. db = Table (Some r) \<Longrightarrow> pr_Generation r = gen \<Longrightarrow> row_of s r"
    and p: "p = swap_all gen (norm_snapshot s) all_swaps p0"
    using assms(3) by (auto simp: swapping_ok_def)
  from swap_all_serves [OF db_okD(2) [OF assms(1) s(1)], of gen p0] s assms(2) show ?thesis
    unfolding poller_ok_def p by auto
qed

lemma reader_step_ok:
  assumes "reader_step db rd rd'" and "db_ok db snaps" and "reading_ok db snaps rd"
  shows "reading_ok db snaps rd'"
  using assms(1,3)
proof (induction rule: reader_step.induct)
  case (checks ans p gen)
  from checks.hyps obtain r where "db = Table (Some r)" "gen = pr_Generation r"
    by (rule Poller_check_gen)
  then show ?case
    using checks.prems db_okD(1) [OF assms(2)] in_generations by (fastforce simp: row_of_def)
next
  case (reads ans parsed p gen)
  obtain r s where "db = Table (Some r)" "s \<in> set snaps" "row_of s r" "parsed = norm_snapshot s"
    using read_snapshot [OF assms(2) reads.hyps] .
  then have "swapping_ok db snaps gen parsed all_swaps p"
    using reads.prems by (auto simp: swapping_ok_def swap_all_def intro!: exI [of _ p] exI [of _ "[]"])
  with reads.prems show ?case by simp
next
  case (swaps p gen parsed x todo)
  then obtain p0 swapped where "poller_ok db snaps p0" "swapped @ x # todo = all_swaps" "p = swap_all gen parsed swapped p0"
    by (auto simp: swapping_ok_def)
  then have "\<exists>p0 swapped. poller_ok db snaps p0 \<and> swapped @ todo = all_swaps \<and>
      swap_in gen parsed x p = swap_all gen parsed swapped p0"
    by (intro exI [of _ p0] exI [of _ "swapped @ [x]"]) (simp add: swap_all_def)
  with swaps.prems show ?case by (auto simp: swapping_ok_def)
next
  case (rests p gen parsed)
  then show ?case using swapped_all_ok [OF assms(2)] by auto
qed (simp_all add: reading_ok_new)

section \<open>A publication\<close>

text \<open>
  A publication has a generation of its own, so the row it leaves is the old one or has a
  generation that no poller remembers.
\<close>

lemma published_row:
  assumes "db' = db \<or> (\<exists>r. db' = Table (Some r) \<and> row_of snap r)"
    and "sn_Generation snap \<notin> set (generations snaps)"
    and "db' = Table (Some r)" and "pr_Generation r \<in> set (generations snaps)"
  shows "db = Table (Some r)"
  using assms by (auto simp: row_of_def)

lemma db_ok_publish:
  assumes "db_ok db snaps" and "sn_Index snap \<noteq> None" and "sn_Generation snap \<noteq> 0"
    and "sn_Generation snap \<notin> set (generations snaps)"
    and "db' = db \<or> (\<exists>r. db' = Table (Some r) \<and> row_of snap r)"
  shows "db_ok db' (snap # snaps)"
  using assms unfolding db_ok_def by fastforce

lemma poller_ok_publish:
  assumes "poller_ok db snaps p" and "sn_Generation snap \<notin> set (generations snaps)"
    and "db' = db \<or> (\<exists>r. db' = Table (Some r) \<and> row_of snap r)"
  shows "poller_ok db' (snap # snaps) p"
  using assms(1) published_row [OF assms(3,2)] unfolding poller_ok_def by auto

lemma reading_ok_publish:
  assumes "reading_ok db snaps rd" and new: "sn_Generation snap \<notin> set (generations snaps)"
    and db': "db' = db \<or> (\<exists>r. db' = Table (Some r) \<and> row_of snap r)"
  shows "reading_ok db' (snap # snaps) rd"
proof (cases rd)
  case (fields p phase)
  have poller: "poller_ok db' (snap # snaps) q" if "poller_ok db snaps q" for q
    by (rule poller_ok_publish [OF that new db'])
  show ?thesis
  proof (cases phase)
    case (Swapping gen parsed todo)
    then have gen: "gen \<in> set (generations snaps)" and "swapping_ok db snaps gen parsed todo p"
      using assms(1) by (simp_all add: fields)
    then obtain s p0 swapped where s: "s \<in> set snaps" "parsed = norm_snapshot s"
      "\<And>r. db = Table (Some r) \<Longrightarrow> pr_Generation r = gen \<Longrightarrow> row_of s r"
      and p0: "poller_ok db snaps p0" "swapped @ todo = all_swaps" "p = swap_all gen parsed swapped p0"
      by (auto simp: swapping_ok_def)
    have "row_of s r" if "db' = Table (Some r)" "pr_Generation r = gen" for r
      using s(3) published_row [OF db' new that(1)] gen that(2) by blast
    then have "swapping_ok db' (snap # snaps) gen parsed todo p"
      unfolding swapping_ok_def
    proof (intro conjI bexI exI)
      show "parsed = norm_snapshot s" "s \<in> set (snap # snaps)"
        "poller_ok db' (snap # snaps) p0" "swapped @ todo = all_swaps" "p = swap_all gen parsed swapped p0"
        using s(1,2) poller [OF p0(1)] p0(2,3) by simp_all
    qed blast
    with gen show ?thesis by (simp add: fields Swapping)
  qed (use assms(1) poller in \<open>auto simp: fields\<close>)
qed

text \<open>A migration leaves the row as it is.\<close>

lemma ensureSchema_row: "snd (Pg_ensureSchema ans db) = Table (Some r) \<longleftrightarrow> db = Table (Some r)"
  by (auto simp: Pg_ensureSchema_def Let_def split: db.splits pg_answer.splits)

lemma poller_ok_same_row:
  assumes "\<And>r. db' = Table (Some r) \<longleftrightarrow> db = Table (Some r)"
  shows "poller_ok db' snaps p \<longleftrightarrow> poller_ok db snaps p"
  by (simp add: poller_ok_def assms)

lemma reading_ok_same_row:
  assumes "\<And>r. db' = Table (Some r) \<longleftrightarrow> db = Table (Some r)"
  shows "reading_ok db' snaps rd \<longleftrightarrow> reading_ok db snaps rd"
  by (cases rd; cases "rp_phase rd") (simp_all add: poller_ok_same_row [OF assms] swapping_ok_def assms)

lemma cluster_ok_step: "cluster_step c c' \<Longrightarrow> cluster_ok c \<Longrightarrow> cluster_ok c'"
proof (induction rule: cluster_step.induct)
  case (migrates ans c db')
  then have row: "db' = Table (Some r) \<longleftrightarrow> cl_db c = Table (Some r)" for r
    using ensureSchema_row by blast
  with migrates.prems show ?case
    by (simp add: cluster_ok_def db_ok_def reading_ok_same_row [OF row] row)
next
  case (publishes snap env idx kc statuses c db')
  have "db' = cl_db c \<or> (\<exists>r. db' = Table (Some r) \<and> row_of snap r)"
    using publish_snapshot_db publishes.hyps(4) by blast
  moreover have "sn_Index snap \<noteq> None"
    by (simp add: publishes.hyps(1) live_snapshot_def)
  ultimately have "db_ok db' (snap # cl_published c)" and "reading_ok db' (snap # cl_published c) (cl_readers c i)" for i
    using publishes.hyps(2,3) publishes.prems db_ok_publish reading_ok_publish unfolding cluster_ok_def by metis+
  then show ?case by (simp add: cluster_ok_def)
next
  case (polls c i rd)
  then show ?case using reader_step_ok by (auto simp: cluster_ok_def)
qed

lemma cluster_ok_reachable: "cluster_step\<^sup>*\<^sup>* new_cluster c \<Longrightarrow> cluster_ok c"
  by (induction rule: rtranclp_induct) (auto intro: new_cluster_ok cluster_ok_step)

lemma cluster_okD:
  assumes "cluster_ok c"
  shows "db_ok (cl_db c) (cl_published c)" and "reading_ok (cl_db c) (cl_published c) (cl_readers c i)"
  using assms by (simp_all add: cluster_ok_def)

section \<open>What a reader serves\<close>

abbreviation reader_of :: "cluster \<Rightarrow> nat \<Rightarrow> poller" where
  "reader_of c i \<equiv> rp_poller (cl_readers c i)"

definition between_loads :: "reading \<Rightarrow> bool" where
  "between_loads rd \<longleftrightarrow> (\<forall>gen parsed todo. rp_phase rd \<noteq> Swapping gen parsed todo)"

lemma between_loads_ok:
  "reading_ok db snaps rd \<Longrightarrow> between_loads rd \<Longrightarrow> poller_ok db snaps (rp_poller rd)"
  by (cases rd; cases "rp_phase rd") (auto simp: between_loads_def)

lemma swap_prefixes:
  assumes "swapped @ todo = all_swaps"
  shows "swapped = [] \<or> swapped = [Swap_index] \<or> swapped = [Swap_index, Swap_keys] \<or>
    swapped = [Swap_index, Swap_keys, Swap_statuses] \<or> swapped = all_swaps"
  using assms by (auto simp: all_swaps_def append_eq_Cons_conv)

text \<open>Two snapshots at most: the one that is swapped in and the one served before.\<close>

definition mixes :: "poller \<Rightarrow> snapshot \<Rightarrow> snapshot \<Rightarrow> bool" where
  "mixes p new old \<longleftrightarrow> index_of new p \<and>
     (keys_of_snapshot old p \<and> statuses_of old p \<or>
      keys_of_snapshot new p \<and> (statuses_of old p \<or> po_statuses p = None))"

lemma swapping_mixes:
  assumes "db_ok db snaps" and "swapping_ok db snaps gen parsed todo p" and "Reader_Warmed (po_keys p)"
  shows "\<exists>new\<in>set snaps. \<exists>old\<in>set snaps. serves p new \<or> mixes p new old"
proof -
  obtain s p0 swapped where s: "s \<in> set snaps" "parsed = norm_snapshot s"
    and p0: "poller_ok db snaps p0" "swapped @ todo = all_swaps" "p = swap_all gen parsed swapped p0"
    using assms(2) by (auto simp: swapping_ok_def)
  have idx: "sn_Index s \<noteq> None"
    using db_okD(2) [OF assms(1) s(1)] .
  have new: "po_statuses newPoller = None" "\<not> Reader_Warmed (po_keys newPoller)"
    by (simp_all add: newPoller_def NewReader_def Reader_Warmed_def)
  show ?thesis
  proof (cases "p0 = newPoller")
    case True
    from swap_prefixes [OF p0(2)] have "serves p s \<or> mixes p s s"
    proof (elim disjE)
      assume "swapped = []"
      with assms(3) True p0(3) show ?thesis by (simp add: swap_all_simps new)
    next
      assume "swapped = [Swap_index]"
      with assms(3) True p0(3) show ?thesis
        by (simp add: swap_all_simps swap_frame new del: swap_in.simps)
    next
      assume "swapped = [Swap_index, Swap_keys]"
      with True p0(3) show ?thesis
        by (simp add: s(2) swap_all_simps swap_frame mixes_def swap_parts swap_simps idx new del: swap_in.simps)
    qed (simp_all add: p0(3) s(2) swap_all_simps all_swaps_def serves_def swap_parts swap_simps idx del: swap_in.simps)
    with s(1) show ?thesis by blast
  next
    case False
    then obtain t where t: "t \<in> set snaps" "serves p0 t"
      using p0(1) by (auto simp: poller_ok_def)
    from swap_prefixes [OF p0(2)] have "serves p s \<or> serves p t \<or> mixes p s t"
      using t(2) by (elim disjE) (simp_all add: p0(3) s(2) swap_all_simps all_swaps_def serves_def mixes_def
          swap_parts swap_simps idx del: swap_in.simps)
    with s(1) t(1) show ?thesis by blast
  qed
qed

text \<open>
  C9. However publications and the steps of the loads interleave, a warm reader serves
  index, keys and statuses of one and the same published snapshot, except while a load
  swaps its parts in: then the index is of the new snapshot, and keys and statuses are
  each of the new or the previous one.
\<close>

theorem warm_reader_serves_published_parts:
  assumes "cluster_step\<^sup>*\<^sup>* new_cluster c" and "Reader_Warmed (po_keys (reader_of c i))"
  shows "\<exists>new\<in>set (cl_published c). \<exists>old\<in>set (cl_published c).
    serves (reader_of c i) new \<or> \<not> between_loads (cl_readers c i) \<and> mixes (reader_of c i) new old"
proof -
  note ok = cluster_okD [OF cluster_ok_reachable [OF assms(1)]]
  show ?thesis
  proof (cases "between_loads (cl_readers c i)")
    case True
    from between_loads_ok [OF ok(2) this] assms(2) show ?thesis
      by (auto simp: poller_ok_def newPoller_def NewReader_def Reader_Warmed_def)
  next
    case False
    then obtain gen parsed todo where "rp_phase (cl_readers c i) = Swapping gen parsed todo"
      by (auto simp: between_loads_def)
    then have "swapping_ok (cl_db c) (cl_published c) gen parsed todo (reader_of c i)"
      using ok(2) [of i] by (cases "cl_readers c i") simp
    from swapping_mixes [OF ok(1) this assms(2)] False show ?thesis by blast
  qed
qed

text \<open>Whatever a reader is doing, its index comes from a published snapshot.\<close>

lemma reader_index:
  assumes "cluster_ok c" and "Store_Get (po_index (reader_of c i)) = Some j"
  shows "\<exists>s\<in>set (cl_published c). index_of s (reader_of c i)"
proof -
  note ok = cluster_okD [OF assms(1)]
  have rested: "\<exists>s\<in>set (cl_published c). index_of s p"
    if "poller_ok (cl_db c) (cl_published c) p" "Store_Get (po_index p) = Some j" for p
    using that by (auto simp: poller_ok_def newPoller_def serves_def)
  show ?thesis
  proof (cases "between_loads (cl_readers c i)")
    case True
    from rested [OF between_loads_ok [OF ok(2) this] assms(2)] show ?thesis .
  next
    case False
    then obtain gen parsed todo where "rp_phase (cl_readers c i) = Swapping gen parsed todo"
      by (auto simp: between_loads_def)
    then have "swapping_ok (cl_db c) (cl_published c) gen parsed todo (reader_of c i)"
      using ok(2) [of i] by (cases "cl_readers c i") simp
    then obtain s p0 swapped where s: "s \<in> set (cl_published c)" "parsed = norm_snapshot s"
      and p0: "poller_ok (cl_db c) (cl_published c) p0" "swapped @ todo = all_swaps"
        "reader_of c i = swap_all gen parsed swapped p0"
      by (auto simp: swapping_ok_def)
    have idx: "sn_Index s \<noteq> None"
      using db_okD(2) [OF ok(1) s(1)] .
    from swap_prefixes [OF p0(2)] have "reader_of c i = p0 \<or> index_of s (reader_of c i)"
      by (elim disjE) (simp_all add: p0(3) s(2) swap_all_simps all_swaps_def swap_parts swap_simps idx del: swap_in.simps)
    with s(1) rested [OF p0(1)] assms(2) show ?thesis by auto
  qed
qed

text \<open>A reader between two loads that has seen the generation of the database serves its row.\<close>

lemma same_generation_means_up_to_date:
  assumes "cluster_step\<^sup>*\<^sup>* new_cluster c" and "cl_db c = Table (Some r)"
    and "between_loads (cl_readers c i)" and "po_lastGen (reader_of c i) = pr_Generation r"
  shows "\<exists>s\<in>set (cl_published c). row_of s r \<and> serves (reader_of c i) s"
proof -
  note ok = cluster_okD [OF cluster_ok_reachable [OF assms(1)]]
  have "pr_Generation r \<noteq> 0"
    using db_okD(1,3) [OF ok(1)] assms(2) in_generations by (fastforce simp: row_of_def)
  then have "reader_of c i \<noteq> newPoller"
    using assms(4) by (auto simp: newPoller_def)
  with between_loads_ok [OF ok(2) assms(3)] assms(2,4) show ?thesis
    by (auto simp: poller_ok_def)
qed

text \<open>
  From every reachable state, one poll of a reader between loads that the database
  answers without a publication in between brings the reader to the row of the database,
  without an error.
\<close>

lemma undisturbed_poll_converges:
  assumes "cluster_step\<^sup>*\<^sup>* new_cluster c" and "cl_db c = Table (Some r)"
    and "between_loads (cl_readers c i)"
    and "Poller_load Answered (cl_db c) Answered (cl_db c) (reader_of c i) = (err, p)"
  shows "err = None \<and> (\<exists>s\<in>set (cl_published c). row_of s r \<and> serves p s) \<and> po_lastGen p = pr_Generation r"
proof (cases "po_lastGen (reader_of c i) = pr_Generation r")
  case True
  then have "(err, p) = (None, reader_of c i)"
    using assms(4) by (simp add: assms(2) Poller_load_def Poller_check_def answered_queries)
  with same_generation_means_up_to_date [OF assms(1-3) True] True show ?thesis by simp
next
  case False
  note ok = cluster_okD(1) [OF cluster_ok_reachable [OF assms(1)]]
  obtain s where s: "s \<in> set (cl_published c)" "row_of s r"
    using db_okD(1) [OF ok assms(2)] by blast
  have "Pg_Load Answered (cl_db c) = Inr (Some r)"
    by (simp add: assms(2) answered_queries)
  from Poller_fetch_row [OF this s(2) db_okD(2) [OF ok s(1)], of "pr_Generation r" "reader_of c i"] False s show ?thesis
    using assms(4) by (auto simp: assms(2) Poller_load_def Poller_check_def answered_queries)
qed

section \<open>A load, step by step\<close>

lemma swaps_one_by_one:
  "(reader_step db)\<^sup>*\<^sup>* \<lparr>rp_poller = p, rp_phase = Swapping gen parsed (xs @ ys)\<rparr>
     \<lparr>rp_poller = swap_all gen parsed xs p, rp_phase = Swapping gen parsed ys\<rparr>"
proof (induction xs arbitrary: p)
  case Nil
  then show ?case by (simp add: swap_all_simps)
next
  case (Cons x xs)
  have "reader_step db \<lparr>rp_poller = p, rp_phase = Swapping gen parsed (x # xs @ ys)\<rparr>
      \<lparr>rp_poller = swap_in gen parsed x p, rp_phase = Swapping gen parsed (xs @ ys)\<rparr>"
    by (rule reader_step.swaps)
  with Cons.IH show ?case
    by (simp add: swap_all_simps del: swap_in.simps) (meson converse_rtranclp_into_rtranclp)
qed

lemma load_begins:
  assumes "row_of s r" and "po_lastGen p \<noteq> pr_Generation r" and "xs @ ys = all_swaps"
  shows "(reader_step (Table (Some r)))\<^sup>*\<^sup>* \<lparr>rp_poller = p, rp_phase = Resting\<rparr>
    \<lparr>rp_poller = swap_all (pr_Generation r) (norm_snapshot s) xs p,
     rp_phase = Swapping (pr_Generation r) (norm_snapshot s) ys\<rparr>"
proof -
  let ?db = "Table (Some r)" and ?gen = "pr_Generation r"
  have "reader_step ?db \<lparr>rp_poller = p, rp_phase = Resting\<rparr> \<lparr>rp_poller = p, rp_phase = Checked ?gen\<rparr>"
    using assms(2) by (intro reader_step.checks [of Answered]) (auto simp: Poller_check_def answered_queries)
  moreover have "reader_step ?db \<lparr>rp_poller = p, rp_phase = Checked ?gen\<rparr>
      \<lparr>rp_poller = p, rp_phase = Swapping ?gen (norm_snapshot s) all_swaps\<rparr>"
    by (rule reader_step.reads [OF answered_read [OF assms(1)]])
  ultimately show ?thesis
    using swaps_one_by_one [of ?db p ?gen "norm_snapshot s" xs ys]
    unfolding assms(3) by (meson converse_rtranclp_into_rtranclp)
qed

lemma whole_load:
  assumes "row_of s r" and "po_lastGen p \<noteq> pr_Generation r"
  shows "(reader_step (Table (Some r)))\<^sup>*\<^sup>* \<lparr>rp_poller = p, rp_phase = Resting\<rparr>
    \<lparr>rp_poller = swap_all (pr_Generation r) (norm_snapshot s) all_swaps p, rp_phase = Resting\<rparr>"
  using load_begins [OF assms, of all_swaps "[]"] reader_step.rests by (simp add: rtranclp.rtrancl_into_rtrancl)

lemma polls_many:
  assumes "(reader_step (cl_db c))\<^sup>*\<^sup>* (cl_readers c i) rd"
  shows "cluster_step\<^sup>*\<^sup>* c (c\<lparr>cl_readers := (cl_readers c)(i := rd)\<rparr>)"
  using assms
proof (induction rule: rtranclp_induct)
  case base
  then show ?case by simp
next
  case (step rd rd')
  have "cluster_step (c\<lparr>cl_readers := (cl_readers c)(i := rd)\<rparr>) (c\<lparr>cl_readers := (cl_readers c)(i := rd')\<rparr>)"
    using cluster_step.polls [of "c\<lparr>cl_readers := (cl_readers c)(i := rd)\<rparr>" i rd'] step.hyps(2) by simp
  with step.IH show ?case by (rule rtranclp.rtrancl_into_rtrancl)
qed

section \<open>A sample run\<close>

definition sample_publication :: publish_env where
  "sample_publication = \<lparr>pv_clock = 7, pv_now = 8, pv_marshal = None, pv_answer = Answered\<rparr>"

definition sample_snapshot :: snapshot where
  "sample_snapshot = live_snapshot sample_publication (Build 7 sample_rows) None []"

definition sample_row :: row where
  "sample_row = \<lparr>pr_Generation = 7, pr_Data = Doc (enc_snapshot sample_snapshot), pr_UpdatedAt = 8\<rparr>"

definition later_publication :: publish_env where
  "later_publication = \<lparr>pv_clock = 9, pv_now = 10, pv_marshal = None, pv_answer = Answered\<rparr>"

definition later_snapshot :: snapshot where
  "later_snapshot = live_snapshot later_publication (Build 9 sample_rows) None []"

definition later_row :: row where
  "later_row = \<lparr>pr_Generation = 9, pr_Data = Doc (enc_snapshot later_snapshot), pr_UpdatedAt = 10\<rparr>"

lemma sample_rows_of: "row_of sample_snapshot sample_row" "row_of later_snapshot later_row"
  by (simp_all add: row_of_def sample_row_def later_row_def sample_snapshot_def later_snapshot_def live_snapshot_def
      sample_publication_def later_publication_def)

lemma sample_generations:
  "pr_Generation sample_row = 7" "pr_Generation later_row = 9"
  "sn_Generation sample_snapshot = 7" "sn_Generation later_snapshot = 9"
  "sn_GeneratedAt sample_snapshot = 8" "sn_GeneratedAt later_snapshot = 10"
  "sn_Index sample_snapshot = Some (Build 7 sample_rows)" "sn_Index later_snapshot = Some (Build 9 sample_rows)"
  "sn_Sources sample_snapshot = Some []" "sn_Sources later_snapshot = Some []"
  by (simp_all add: sample_row_def later_row_def sample_snapshot_def later_snapshot_def live_snapshot_def
      sample_publication_def later_publication_def)

lemma sample_publishes:
  "publish_snapshot sample_publication sample_snapshot (Table q) = Table (Some sample_row)"
  "publish_snapshot later_publication later_snapshot (Table q) = Table (Some later_row)"
  by (simp_all add: publish_snapshot_def Marshal_def Pg_Save_def sample_publication_def later_publication_def
      sample_generations sample_row_def later_row_def)

definition published_cluster :: cluster where
  "published_cluster = new_cluster\<lparr>cl_db := Table (Some sample_row), cl_published := [sample_snapshot]\<rparr>"

definition sample_loaded :: poller where
  "sample_loaded = swap_all 7 (norm_snapshot sample_snapshot) all_swaps newPoller"

definition loaded_cluster :: cluster where
  "loaded_cluster = published_cluster\<lparr>cl_readers := (\<lambda>_. new_reading)(0 := \<lparr>rp_poller = sample_loaded, rp_phase = Resting\<rparr>)\<rparr>"

lemma published_reachable: "cluster_step\<^sup>*\<^sup>* new_cluster published_cluster"
proof -
  let ?c = "new_cluster\<lparr>cl_db := Table None\<rparr>"
  have "cluster_step new_cluster ?c"
    by (rule cluster_step.migrates [of Answered]) (simp add: new_cluster_def Pg_ensureSchema_def)
  moreover have "cluster_step ?c (?c\<lparr>cl_db := Table (Some sample_row), cl_published := sample_snapshot # cl_published ?c\<rparr>)"
    by (rule cluster_step.publishes [OF sample_snapshot_def])
      (simp_all add: sample_generations sample_publishes new_cluster_def)
  then have "cluster_step ?c published_cluster"
    by (simp add: published_cluster_def new_cluster_def)
  ultimately show ?thesis by (meson converse_rtranclp_into_rtranclp rtranclp.rtrancl_refl)
qed

lemma loaded_reachable: "cluster_step\<^sup>*\<^sup>* new_cluster loaded_cluster"
proof -
  have "(reader_step (cl_db published_cluster))\<^sup>*\<^sup>* (cl_readers published_cluster 0) \<lparr>rp_poller = sample_loaded, rp_phase = Resting\<rparr>"
    using whole_load [OF sample_rows_of(1), of newPoller]
    by (simp add: published_cluster_def new_cluster_def new_reading_def sample_loaded_def sample_generations newPoller_def)
  from polls_many [OF this] have "cluster_step\<^sup>*\<^sup>* published_cluster loaded_cluster"
    by (simp add: loaded_cluster_def published_cluster_def new_cluster_def)
  with published_reachable show ?thesis by (rule rtranclp_trans)
qed

lemma loaded_reader:
  "cl_readers loaded_cluster 0 = \<lparr>rp_poller = sample_loaded, rp_phase = Resting\<rparr>"
  "serves sample_loaded sample_snapshot" "po_lastGen sample_loaded = 7" "Reader_Warmed (po_keys sample_loaded)"
  "between_loads (cl_readers loaded_cluster 0)" "cl_db loaded_cluster = Table (Some sample_row)"
  "cl_published loaded_cluster = [sample_snapshot]"
proof -
  have "sn_Index sample_snapshot \<noteq> None"
    by (simp add: sample_generations)
  from swap_all_serves [OF this] show served: "serves sample_loaded sample_snapshot" and "po_lastGen sample_loaded = 7"
    by (simp_all add: sample_loaded_def)
  then show "Reader_Warmed (po_keys sample_loaded)"
    by (simp add: serves_defs Reader_Warmed_def)
qed (simp_all add: loaded_cluster_def published_cluster_def new_cluster_def between_loads_def)

theorem warm_reader_serves_published_parts_sample:
  "\<exists>c. Reader_Warmed (po_keys (reader_of c 0)) \<and> (\<exists>s\<in>set (cl_published c). serves (reader_of c 0) s)"
proof (intro exI conjI)
  show warm: "Reader_Warmed (po_keys (reader_of loaded_cluster 0))"
    by (simp add: loaded_reader)
  show "\<exists>s\<in>set (cl_published loaded_cluster). serves (reader_of loaded_cluster 0) s"
    using warm_reader_serves_published_parts [OF loaded_reachable warm] loaded_reader(5) by blast
qed

lemma undisturbed_poll_converges_sample:
  "\<exists>p s. Poller_load Answered (Table (Some sample_row)) Answered (Table (Some sample_row)) newPoller = (None, p) \<and>
     row_of s sample_row \<and> serves p s \<and> po_lastGen p = 7"
proof -
  let ?load = "Poller_load Answered (cl_db published_cluster) Answered (cl_db published_cluster) (reader_of published_cluster 0)"
  have c: "cl_db published_cluster = Table (Some sample_row)" "reader_of published_cluster 0 = newPoller"
    "between_loads (cl_readers published_cluster 0)"
    by (simp_all add: published_cluster_def new_cluster_def new_reading_def between_loads_def)
  from undisturbed_poll_converges [OF published_reachable c(1,3), of "fst ?load" "snd ?load"] show ?thesis
    by (auto simp: c sample_generations prod_eq_iff intro!: exI [of _ "snd ?load"])
qed

text \<open>A reader that has swapped in the index of a second snapshot, and not yet its keys.\<close>

definition mixing_reading :: reading where
  "mixing_reading = \<lparr>rp_poller = swap_all 9 (norm_snapshot later_snapshot) [Swap_index] sample_loaded,
     rp_phase = Swapping 9 (norm_snapshot later_snapshot) [Swap_keys, Swap_statuses, Swap_generation]\<rparr>"

definition mixing_cluster :: cluster where
  "mixing_cluster = loaded_cluster\<lparr>cl_db := Table (Some later_row), cl_published := [later_snapshot, sample_snapshot],
     cl_readers := (cl_readers loaded_cluster)(0 := mixing_reading)\<rparr>"

lemma mixing_reachable: "cluster_step\<^sup>*\<^sup>* new_cluster mixing_cluster"
proof -
  let ?c = "loaded_cluster\<lparr>cl_db := Table (Some later_row), cl_published := [later_snapshot, sample_snapshot]\<rparr>"
  have "cluster_step loaded_cluster (loaded_cluster\<lparr>cl_db := Table (Some later_row),
      cl_published := later_snapshot # cl_published loaded_cluster\<rparr>)"
    by (rule cluster_step.publishes [OF later_snapshot_def])
      (simp_all add: sample_generations sample_publishes loaded_reader)
  then have "cluster_step\<^sup>*\<^sup>* new_cluster ?c"
    using loaded_reachable by (simp add: loaded_reader(7) rtranclp.rtrancl_into_rtrancl)
  moreover have "(reader_step (cl_db ?c))\<^sup>*\<^sup>* (cl_readers ?c 0) mixing_reading"
    using load_begins [OF sample_rows_of(2), of sample_loaded "[Swap_index]" "[Swap_keys, Swap_statuses, Swap_generation]"]
    by (simp add: loaded_reader sample_generations all_swaps_def mixing_reading_def)
  then have "cluster_step\<^sup>*\<^sup>* ?c mixing_cluster"
    using polls_many [of ?c 0 mixing_reading] by (simp add: mixing_cluster_def)
  ultimately show ?thesis by (rule rtranclp_trans)
qed


end
