(* ===== verification/Provider.thy ===== *)
theory Provider
  imports Keys Reader
begin

text \<open>
  The value behind the HTTP server's \<open>KeyProvider\<close> interface: the live cache of a standalone
  or writer pod, or the published entries of a reader. The provider keeps the contract of both.
\<close>

datatype provider = Live cache | Published reader

fun Keys_Get :: "provider \<Rightarrow> string \<Rightarrow> entry option" where
  "Keys_Get (Live c) handle = Cache_Get c handle"
| "Keys_Get (Published r) handle = Reader_Get r handle"

fun Keys_Refresh :: "fetch_env \<Rightarrow> string \<Rightarrow> provider \<times> fs \<Rightarrow> entry \<times> provider \<times> fs" where
  "Keys_Refresh env handle (Live c, fs) =
     (case Cache_Refresh env handle (c, fs) of (e, c', fs') \<Rightarrow> (e, Live c', fs'))"
| "Keys_Refresh env handle (Published r, fs) = (Reader_Refresh handle r, Published r, fs)"

fun Keys_Status :: "provider \<Rightarrow> key_status" where
  "Keys_Status (Live c) = Cache_Status c"
| "Keys_Status (Published r) = Reader_Status r"

fun Keys_Warmed :: "time \<Rightarrow> provider \<Rightarrow> bool" where
  "Keys_Warmed now (Live c) = Cache_Warmed now c"
| "Keys_Warmed now (Published r) = Reader_Warmed r"

lemma Keys_Refresh_live:
  "fst (Keys_Refresh env handle (Live c, fs)) = fst (Cache_Refresh env handle (c, fs))"
  "snd (Keys_Refresh env handle (Live c, fs)) = apfst Live (snd (Cache_Refresh env handle (c, fs)))"
  by (simp_all split: prod.splits)

interpretation any_provider: key_provider "\<lambda>(p, fs). Keys_Get p" Keys_Refresh
proof unfold_locales
  fix g h :: string and s :: "provider \<times> fs" and env
  obtain p fs where s: "s = (p, fs)" by (cases s)
  have eqs: "(toLower g = toLower h \<longrightarrow> Keys_Get p g = Keys_Get p h) \<and>
      (toLower g \<noteq> toLower h \<longrightarrow> Keys_Get (fst (snd (Keys_Refresh env h (p, fs)))) g = Keys_Get p g) \<and>
      (Keys_Get (fst (snd (Keys_Refresh env h (p, fs)))) h = Some (fst (Keys_Refresh env h (p, fs))) \<or>
       Keys_Get (fst (snd (Keys_Refresh env h (p, fs)))) h = None \<and> Keys_Get p h = None \<and>
       en_Keys (fst (Keys_Refresh env h (p, fs))) = []) \<and>
      (en_LastError (fst (Keys_Refresh env h (p, fs))) \<noteq> [] \<longrightarrow>
       en_Keys (fst (Keys_Refresh env h (p, fs))) = (case Keys_Get p h of None \<Rightarrow> [] | Some e \<Rightarrow> en_Keys e))"
  proof (cases p)
    case (Live c)
    show ?thesis
      using cache_provider.get_case [where g = g and h = h and s = "(c, fs)"]
        cache_provider.refresh_frame [where g = g and h = h and s = "(c, fs)" and env = env]
        cache_provider.refresh_stored [where h = h and s = "(c, fs)" and env = env]
        cache_provider.refresh_failed [where h = h and s = "(c, fs)" and env = env]
      by (simp add: Live split_def)
  next
    case (Published r)
    show ?thesis
      using reader_provider.get_case [where g = g and h = h and s = r]
        reader_provider.refresh_stored [where h = h and s = r]
        reader_provider.refresh_failed [where h = h and s = r]
      by (simp add: Published)
  qed
  then show "toLower g = toLower h \<Longrightarrow> (case s of (p, fs) \<Rightarrow> Keys_Get p) g = (case s of (p, fs) \<Rightarrow> Keys_Get p) h"
    and "toLower g \<noteq> toLower h \<Longrightarrow>
      (case snd (Keys_Refresh env h s) of (p, fs) \<Rightarrow> Keys_Get p) g = (case s of (p, fs) \<Rightarrow> Keys_Get p) g"
    and "(case snd (Keys_Refresh env h s) of (p, fs) \<Rightarrow> Keys_Get p) h = Some (fst (Keys_Refresh env h s)) \<or>
      (case snd (Keys_Refresh env h s) of (p, fs) \<Rightarrow> Keys_Get p) h = None \<and>
      (case s of (p, fs) \<Rightarrow> Keys_Get p) h = None \<and> en_Keys (fst (Keys_Refresh env h s)) = []"
    and "en_LastError (fst (Keys_Refresh env h s)) \<noteq> [] \<Longrightarrow>
      en_Keys (fst (Keys_Refresh env h s)) =
        (case (case s of (p, fs) \<Rightarrow> Keys_Get p) h of None \<Rightarrow> [] | Some e \<Rightarrow> en_Keys e)"
    by (simp_all add: s split_def)
qed

end
