(* ===== verification/Metrics.thy ===== *)
theory Metrics
  imports Provider Syncer
begin

text \<open>
  \<open>internal/api/metrics.go\<close>: the Prometheus collector that reads the index, the source
  statuses and the key cache at scrape time, with \<open>countBySource\<close> of \<open>api.go\<close>, which it
  shares with the team list. A metric is its name, its label values in the order of its
  description, and a value (a float in the code, always a whole number).
\<close>

section \<open>Counting by source\<close>

definition bump :: "(string \<times> nat) list \<Rightarrow> string \<Rightarrow> (string \<times> nat) list" where
  "bump counts src = put src ((case map_of counts src of None \<Rightarrow> 0 | Some n \<Rightarrow> n) + 1) counts"

definition countBySource :: "member list \<Rightarrow> (string \<times> nat) list" where
  "countBySource members = foldl (\<lambda>counts m. foldl bump counts (mb_Sources m)) [] members"

lemma gomap_bumps: "gomap counts \<Longrightarrow> gomap (foldl bump counts srcs)"
  by (induction srcs arbitrary: counts) (simp_all add: bump_def)

lemma map_of_bumps:
  "map_of (foldl bump counts srcs) src =
     (case count_list srcs src of 0 \<Rightarrow> map_of counts src
      | Suc n \<Rightarrow> Some ((case map_of counts src of None \<Rightarrow> 0 | Some n \<Rightarrow> n) + Suc n))"
  by (induction srcs arbitrary: counts) (auto simp: bump_def gomap_simps split: nat.split option.split)

lemma countBySource_concat: "countBySource members = foldl bump [] (concat (map mb_Sources members))"
proof -
  have "foldl (\<lambda>counts m. foldl bump counts (mb_Sources m)) counts members =
      foldl bump counts (concat (map mb_Sources members))" for counts
    by (induction members arbitrary: counts) simp_all
  then show ?thesis by (simp add: countBySource_def)
qed

lemma gomap_countBySource [simp]: "gomap (countBySource members)"
  by (simp add: countBySource_concat gomap_bumps)

text \<open>Members name a source at most once, so its count is the number of members that name it.\<close>

lemma countBySource_members:
  assumes "\<forall>m\<in>set members. distinct (mb_Sources m)"
  shows "map_of (countBySource members) src =
    (let n = length (filter (\<lambda>m. src \<in> set (mb_Sources m)) members) in if n = 0 then None else Some n)"
proof -
  have one: "count_list xs src = (if src \<in> set xs then 1 else 0)" if "distinct xs" for xs :: "string list"
    using that by (induction xs) (auto simp: count_list_0_iff)
  have "count_list (concat (map mb_Sources members)) src = length (filter (\<lambda>m. src \<in> set (mb_Sources m)) members)"
    using assms by (induction members) (auto simp: one)
  then show ?thesis
    by (simp add: countBySource_concat map_of_bumps Let_def split: nat.split)
qed

section \<open>The collector\<close>

record metric =
  mt_Name :: string
  mt_Labels :: "string list"
  mt_Value :: int

record collector =
  co_store :: store
  co_statuses :: "source_status list"
  co_keys :: "provider option"

definition newCollector :: "store \<Rightarrow> source_status list \<Rightarrow> provider option \<Rightarrow> collector" where
  "newCollector store statuses kp = \<lparr>co_store = store, co_statuses = statuses, co_keys = kp\<rparr>"

definition gauge :: "string \<Rightarrow> string list \<Rightarrow> int \<Rightarrow> metric" where
  "gauge name labels v = \<lparr>mt_Name = name, mt_Labels = labels, mt_Value = v\<rparr>"

text \<open>The descriptions: a name and the names of its labels.\<close>

definition Describe :: "(string \<times> string list) list" where
  "Describe =
     [(''coredevs_team_members'', [''team'', ''source'']),
      (''coredevs_index_generated_timestamp_seconds'', []),
      (''coredevs_source_members'', [''source'']),
      (''coredevs_source_teams'', [''source'']),
      (''coredevs_source_warnings'', [''source'']),
      (''coredevs_source_last_success_timestamp_seconds'', [''source'']),
      (''coredevs_keys_handles'', []),
      (''coredevs_keys_cached'', []),
      (''coredevs_keys_errors'', []),
      (''coredevs_keys_last_cycle_timestamp_seconds'', [])]"

definition team_metrics :: "index \<Rightarrow> string \<Rightarrow> metric list" where
  "team_metrics idx slug =
     map (\<lambda>(src, n). gauge ''coredevs_team_members'' [slug, src] (int n)) (countBySource (Members idx slug []))"

definition index_metrics :: "index \<Rightarrow> metric list" where
  "index_metrics idx =
     gauge ''coredevs_index_generated_timestamp_seconds'' [] (unix_seconds (ix_GeneratedAt idx)) #
     concat (map (team_metrics idx) (TeamSlugs idx))"

definition status_metrics :: "source_status \<Rightarrow> metric list" where
  "status_metrics st =
     [gauge ''coredevs_source_members'' [ss_Name st] (int (ss_Members st)),
      gauge ''coredevs_source_teams'' [ss_Name st] (int (ss_Teams st)),
      gauge ''coredevs_source_warnings'' [ss_Name st] (int (length (ss_Warnings st)))] @
     (if isZero (ss_LastSuccess st) then []
      else [gauge ''coredevs_source_last_success_timestamp_seconds'' [ss_Name st] (unix_seconds (ss_LastSuccess st))])"

definition key_metrics :: "key_status \<Rightarrow> metric list" where
  "key_metrics st =
     [gauge ''coredevs_keys_handles'' [] (int (ks_Handles st)),
      gauge ''coredevs_keys_cached'' [] (int (ks_Cached st)),
      gauge ''coredevs_keys_errors'' [] (int (ks_Errors st))] @
     (if isZero (ks_LastCycle st) then []
      else [gauge ''coredevs_keys_last_cycle_timestamp_seconds'' [] (unix_seconds (ks_LastCycle st))])"

definition Collect :: "collector \<Rightarrow> metric list" where
  "Collect c =
     (case Store_Get (co_store c) of None \<Rightarrow> [] | Some idx \<Rightarrow> index_metrics idx) @
     concat (map status_metrics (co_statuses c)) @
     (case co_keys c of None \<Rightarrow> [] | Some kp \<Rightarrow> key_metrics (Keys_Status kp))"

text \<open>What the registry checks of a scrape: no series twice, and every metric as described.\<close>

definition series :: "metric \<Rightarrow> string \<times> string list" where
  "series m = (mt_Name m, mt_Labels m)"

definition gathers :: "metric list \<Rightarrow> bool" where
  "gathers ms \<longleftrightarrow> distinct (map series ms) \<and>
     (\<forall>m\<in>set ms. (mt_Name m, length (mt_Labels m)) \<in> set (map (\<lambda>(name, labels). (name, length labels)) Describe))"

lemma series_gauge [simp]: "series (gauge name labels v) = (name, labels)"
  by (simp add: series_def gauge_def)

lemma distinct_blocks:
  assumes "distinct (map key xs)" and "\<And>x. x \<in> set xs \<Longrightarrow> distinct (map f (g x))"
    and "\<And>x y m n. key x \<noteq> key y \<Longrightarrow> m \<in> set (g x) \<Longrightarrow> n \<in> set (g y) \<Longrightarrow> f m \<noteq> f n"
  shows "distinct (map f (concat (map g xs)))"
  using assms(1,2)
proof (induction xs)
  case (Cons x xs)
  have "f m \<noteq> f n" if "m \<in> set (g x)" "y \<in> set xs" "n \<in> set (g y)" for m n y
    using that Cons.prems(1) by (intro assms(3) [of x y]) auto
  then have "f ` set (g x) \<inter> f ` set (concat (map g xs)) = {}"
    by (auto simp: image_iff)
  with Cons show ?case by simp
qed simp

lemma distinct_team_metrics:
  assumes "distinct slugs"
  shows "distinct (map series (concat (map (team_metrics idx) slugs)))"
proof (rule distinct_blocks [where key = "\<lambda>slug. slug"])
  fix slug
  have "map series (team_metrics idx slug) = map (\<lambda>src. (''coredevs_team_members'', [slug, src]))
      (map fst (countBySource (Members idx slug [])))"
    by (simp add: team_metrics_def split_def)
  moreover have "distinct (map fst (countBySource (Members idx slug [])))"
    using gomap_countBySource by (simp add: gomap_def)
  then have "distinct (map (\<lambda>src. (''coredevs_team_members'', [slug, src])) (map fst (countBySource (Members idx slug []))))"
    by (subst distinct_map) (simp add: inj_on_def)
  ultimately show "distinct (map series (team_metrics idx slug))" by simp
qed (use assms in \<open>auto simp: team_metrics_def\<close>)

lemma distinct_status_metrics:
  assumes "distinct (map ss_Name sts)"
  shows "distinct (map series (concat (map status_metrics sts)))"
  by (rule distinct_blocks [where key = ss_Name])
    (use assms in \<open>auto simp: status_metrics_def split: if_splits\<close>)

lemma metric_names:
  "m \<in> set (index_metrics idx) \<Longrightarrow>
     mt_Name m = ''coredevs_team_members'' \<and> length (mt_Labels m) = 2 \<or>
     mt_Name m = ''coredevs_index_generated_timestamp_seconds'' \<and> mt_Labels m = []"
  "m \<in> set (status_metrics st) \<Longrightarrow>
     mt_Name m \<in> {''coredevs_source_members'', ''coredevs_source_teams'', ''coredevs_source_warnings'',
       ''coredevs_source_last_success_timestamp_seconds''} \<and> length (mt_Labels m) = 1"
  "m \<in> set (key_metrics kst) \<Longrightarrow>
     mt_Name m \<in> {''coredevs_keys_handles'', ''coredevs_keys_cached'', ''coredevs_keys_errors'',
       ''coredevs_keys_last_cycle_timestamp_seconds''} \<and> mt_Labels m = []"
  by (auto simp: index_metrics_def team_metrics_def status_metrics_def key_metrics_def gauge_def split: if_splits)

lemma distinct_index_metrics:
  assumes "gomap (ix_Teams idx)"
  shows "distinct (map series (index_metrics idx))"
proof -
  have "distinct (TeamSlugs idx)"
    using assms by (simp add: TeamSlugs_def gomap_def)
  moreover have "(''coredevs_index_generated_timestamp_seconds'', []) \<notin>
      series ` set (concat (map (team_metrics idx) (TeamSlugs idx)))"
    by (auto simp: team_metrics_def)
  ultimately show ?thesis
    using distinct_team_metrics by (simp add: index_metrics_def)
qed

end
