(* ===== verification/Config.thy ===== *)
theory Config
  imports Prelude Complex_Main
begin

text \<open>
  Package \<open>internal/config\<close>: the configuration, its defaults, its validation and the maps
  derived from the team registry. Reading the file and parsing YAML are arguments of \<open>Load\<close>;
  a floating-point rate is a rational number.
\<close>

section \<open>The configuration\<close>

record http_config =
  hc_Addr :: string

record guild_config =
  gc_Enabled :: bool
  gc_URL :: string
  gc_MinMembers :: int
  gc_MinTeams :: int
  gc_MaxMissingSections :: int

record org_config =
  oc_Enabled :: bool
  oc_BaseURL :: string
  oc_TokenEnv :: string
  oc_MinMembers :: int
  oc_MinTeams :: int

record sources_config =
  sc_ProtocolGuild :: guild_config
  sc_GitHubOrg :: org_config

record key_cache_config =
  kf_Enabled :: bool
  kf_BaseURL :: string
  kf_RefreshInterval :: duration
  kf_MaxRequestsPerSecond :: rat
  kf_CacheDir :: string
  kf_WarmTimeout :: duration

record postgres_config =
  pc_DSNEnv :: string
  pc_PublishInterval :: duration
  pc_RefreshInterval :: duration

record cluster_config =
  cc_Role :: string
  cc_Postgres :: postgres_config

record team_config =
  tc_DisplayName :: string
  tc_Kind :: string
  tc_Layer :: string
  tc_ProtocolGuildSections :: "string list"
  tc_GitHubOrgs :: "string list"
  tc_Members :: "string list"

record config =
  cf_HTTP :: http_config
  cf_SyncInterval :: duration
  cf_SnapshotPath :: string
  cf_Sources :: sources_config
  cf_Keys :: key_cache_config
  cf_Cluster :: cluster_config
  cf_Teams :: "(string \<times> team_config) list"
  cf_Exclude :: "string list"

definition RoleStandalone :: string where
  "RoleStandalone = ''standalone''"

definition RoleWriter :: string where
  "RoleWriter = ''writer''"

definition RoleReader :: string where
  "RoleReader = ''reader''"

definition hour_ns :: duration where
  "hour_ns = 3600 * second_ns"

definition Default :: config where
  "Default =
     \<lparr>cf_HTTP = \<lparr>hc_Addr = '':8080''\<rparr>,
      cf_SyncInterval = 3 * hour_ns,
      cf_SnapshotPath = [],
      cf_Sources =
        \<lparr>sc_ProtocolGuild =
           \<lparr>gc_Enabled = True,
            gc_URL = ''https://raw.githubusercontent.com/protocolguild/documentation/main/docs/01-membership.md'',
            gc_MinMembers = 0, gc_MinTeams = 0, gc_MaxMissingSections = 0\<rparr>,
         sc_GitHubOrg =
           \<lparr>oc_Enabled = True, oc_BaseURL = ''https://api.github.com'', oc_TokenEnv = ''GITHUB_TOKEN'',
            oc_MinMembers = 0, oc_MinTeams = 0\<rparr>\<rparr>,
      cf_Keys =
        \<lparr>kf_Enabled = True, kf_BaseURL = ''https://github.com'', kf_RefreshInterval = 3 * hour_ns,
         kf_MaxRequestsPerSecond = 5, kf_CacheDir = [], kf_WarmTimeout = 0\<rparr>,
      cf_Cluster =
        \<lparr>cc_Role = RoleStandalone,
         cc_Postgres = \<lparr>pc_DSNEnv = ''COREDEVS_DATABASE_URL'', pc_PublishInterval = 15 * second_ns,
           pc_RefreshInterval = 5 * second_ns\<rparr>\<rparr>,
      cf_Teams = [],
      cf_Exclude = []\<rparr>"

text \<open>\<open>DSN\<close>: \<open>getenv\<close> is the environment, empty for a variable that is not set.\<close>

definition DSN :: "(string \<Rightarrow> string) \<Rightarrow> cluster_config \<Rightarrow> string" where
  "DSN getenv c = (if pc_DSNEnv (cc_Postgres c) = [] then [] else getenv (pc_DSNEnv (cc_Postgres c)))"

section \<open>Validation\<close>

text \<open>The errors of \<open>validate\<close>, with what their messages print.\<close>

datatype config_error =
    Bad_sync_interval duration
  | No_http_addr
  | No_team
  | Bad_postgres_refresh duration
  | Bad_postgres_publish duration
  | Bad_role string
  | Bad_keys_refresh duration
  | Bad_keys_rate rat
  | Bad_layer string string
  | Bad_kind string string

definition validate_team :: "string \<Rightarrow> team_config \<Rightarrow> config_error option" where
  "validate_team slug team =
     (if tc_Layer team \<noteq> [] \<and> tc_Layer team \<noteq> ''cl'' \<and> tc_Layer team \<noteq> ''el''
      then Some (Bad_layer slug (tc_Layer team))
      else if tc_Kind team \<in> {[], ''client'', ''research'', ''coordination'', ''delivery''} then None
      else Some (Bad_kind slug (tc_Kind team)))"

fun validate_teams :: "(string \<times> team_config) list \<Rightarrow> config_error option" where
  "validate_teams [] = None"
| "validate_teams ((slug, team) # teams) =
     (case validate_team slug team of Some e \<Rightarrow> Some e | None \<Rightarrow> validate_teams teams)"

definition validate_cluster :: "cluster_config \<Rightarrow> config_error option" where
  "validate_cluster c =
     (if cc_Role c = RoleStandalone then None
      else if cc_Role c = RoleWriter \<or> cc_Role c = RoleReader then
        (if pc_RefreshInterval (cc_Postgres c) \<le> 0
         then Some (Bad_postgres_refresh (pc_RefreshInterval (cc_Postgres c)))
         else if pc_PublishInterval (cc_Postgres c) \<le> 0
         then Some (Bad_postgres_publish (pc_PublishInterval (cc_Postgres c)))
         else None)
      else Some (Bad_role (cc_Role c)))"

definition validate_keys :: "key_cache_config \<Rightarrow> config_error option" where
  "validate_keys k =
     (if \<not> kf_Enabled k then None
      else if kf_RefreshInterval k \<le> 0 then Some (Bad_keys_refresh (kf_RefreshInterval k))
      else if kf_MaxRequestsPerSecond k \<le> 0 then Some (Bad_keys_rate (kf_MaxRequestsPerSecond k))
      else None)"

definition validate :: "config \<Rightarrow> config_error option" where
  "validate c =
     (if cf_SyncInterval c \<le> 0 then Some (Bad_sync_interval (cf_SyncInterval c))
      else if hc_Addr (cf_HTTP c) = [] then Some No_http_addr
      else if cf_Teams c = [] then Some No_team
      else case validate_cluster (cf_Cluster c) of Some e \<Rightarrow> Some e
      | None \<Rightarrow> (case validate_keys (cf_Keys c) of Some e \<Rightarrow> Some e
      | None \<Rightarrow> validate_teams (cf_Teams c)))"

definition Validate :: "config \<Rightarrow> config_error option" where
  "Validate c = validate c"

datatype config_load_error =
  Read_config string error | Parse_config string error | Invalid_config string config_error

text \<open>\<open>read_file\<close> is \<open>os.ReadFile\<close>, \<open>unmarshal\<close> sets the fields a document names.\<close>

definition Load ::
    "(string \<Rightarrow> error + 'data) \<Rightarrow> ('data \<Rightarrow> config \<Rightarrow> error + config) \<Rightarrow> string \<Rightarrow> config_load_error + config" where
  "Load read_file unmarshal path =
     (case read_file path of
        Inl e \<Rightarrow> Inl (Read_config path e)
      | Inr data \<Rightarrow>
          (case unmarshal data Default of
             Inl e \<Rightarrow> Inl (Parse_config path e)
           | Inr cfg \<Rightarrow> (case validate cfg of Some e \<Rightarrow> Inl (Invalid_config path e) | None \<Rightarrow> Inr cfg)))"

section \<open>Derived maps\<close>

definition add_org :: "string \<Rightarrow> (string \<times> string list) list \<Rightarrow> string \<Rightarrow> (string \<times> string list) list" where
  "add_org slug out org = put org ((case map_of out org of None \<Rightarrow> [] | Some slugs \<Rightarrow> slugs) @ [slug]) out"

definition OrgTeams :: "config \<Rightarrow> (string \<times> string list) list" where
  "OrgTeams c = foldl (\<lambda>out (slug, team). foldl (add_org slug) out (tc_GitHubOrgs team)) [] (cf_Teams c)"

definition ManualMembers :: "config \<Rightarrow> (string \<times> string list) list" where
  "ManualMembers c =
     foldl (\<lambda>out (slug, team). if tc_Members team \<noteq> [] then put slug (tc_Members team) out else out) [] (cf_Teams c)"

definition ExcludedHandles :: "config \<Rightarrow> (string \<times> bool) list" where
  "ExcludedHandles c = foldl (\<lambda>out h. put (toLower h) True out) [] (cf_Exclude c)"

definition SectionTeams :: "config \<Rightarrow> (string \<times> string) list" where
  "SectionTeams c =
     foldl (\<lambda>out (slug, team). foldl (\<lambda>out section. put section slug out) out (tc_ProtocolGuildSections team))
       [] (cf_Teams c)"

section \<open>What validation accepts\<close>

definition valid_team :: "team_config \<Rightarrow> bool" where
  "valid_team team \<longleftrightarrow> tc_Layer team \<in> {[], ''cl'', ''el''} \<and>
     tc_Kind team \<in> {[], ''client'', ''research'', ''coordination'', ''delivery''}"

definition valid_config :: "config \<Rightarrow> bool" where
  "valid_config c \<longleftrightarrow>
     0 < cf_SyncInterval c \<and> hc_Addr (cf_HTTP c) \<noteq> [] \<and> cf_Teams c \<noteq> [] \<and>
     cc_Role (cf_Cluster c) \<in> {RoleStandalone, RoleWriter, RoleReader} \<and>
     (cc_Role (cf_Cluster c) \<noteq> RoleStandalone \<longrightarrow>
        0 < pc_RefreshInterval (cc_Postgres (cf_Cluster c)) \<and> 0 < pc_PublishInterval (cc_Postgres (cf_Cluster c))) \<and>
     (kf_Enabled (cf_Keys c) \<longrightarrow> 0 < kf_RefreshInterval (cf_Keys c) \<and> 0 < kf_MaxRequestsPerSecond (cf_Keys c)) \<and>
     (\<forall>team\<in>snd ` set (cf_Teams c). valid_team team)"

lemma validate_team_None: "validate_team slug team = None \<longleftrightarrow> valid_team team"
  by (auto simp: validate_team_def valid_team_def)

lemma validate_team_Some: "validate_team slug team = Some e \<Longrightarrow> \<not> valid_team team"
  using validate_team_None [of slug team] by simp

lemma validate_teams_None: "validate_teams teams = None \<longleftrightarrow> (\<forall>team\<in>snd ` set teams. valid_team team)"
  by (induction teams rule: validate_teams.induct) (auto simp: validate_team_None validate_team_Some split: option.split)

lemma validate_None: "validate c = None \<longleftrightarrow> valid_config c"
proof -
  have "validate_cluster k = None \<longleftrightarrow> cc_Role k \<in> {RoleStandalone, RoleWriter, RoleReader} \<and>
      (cc_Role k \<noteq> RoleStandalone \<longrightarrow> 0 < pc_RefreshInterval (cc_Postgres k) \<and> 0 < pc_PublishInterval (cc_Postgres k))" for k
    by (auto simp: validate_cluster_def)
  moreover have "validate_keys k = None \<longleftrightarrow>
      (kf_Enabled k \<longrightarrow> 0 < kf_RefreshInterval k \<and> 0 < kf_MaxRequestsPerSecond k)" for k
    by (auto simp: validate_keys_def)
  ultimately show ?thesis
    by (simp add: validate_def valid_config_def validate_teams_None not_le option.case_eq_if
        flip: option.collapse) (auto simp: validate_teams_None)
qed

lemma Load_valid: "Load read_file unmarshal path = Inr cfg \<Longrightarrow> valid_config cfg"
  by (auto simp: Load_def validate_None [symmetric] split: sum.splits option.splits)

section \<open>What the derived maps hold\<close>

lemma add_orgs: "gomap out \<Longrightarrow> gomap (foldl (add_org slug) out orgs) \<and>
    (\<exists>slugs. map_of (foldl (add_org slug) out orgs) org = Some slugs \<and> s \<in> set slugs) =
    ((\<exists>slugs. map_of out org = Some slugs \<and> s \<in> set slugs) \<or> s = slug \<and> org \<in> set orgs)"
  by (induction orgs arbitrary: out) (auto simp: add_org_def gomap_simps split: option.splits if_splits dest: sym)

lemma OrgTeams_spec:
  "gomap (OrgTeams c) \<and>
   ((\<exists>slugs. map_of (OrgTeams c) org = Some slugs \<and> slug \<in> set slugs) \<longleftrightarrow>
    (\<exists>team. (slug, team) \<in> set (cf_Teams c) \<and> org \<in> set (tc_GitHubOrgs team)))"
proof -
  have "gomap (foldl (\<lambda>out (slug, team). foldl (add_org slug) out (tc_GitHubOrgs team)) out teams) \<and>
      ((\<exists>slugs. map_of (foldl (\<lambda>out (slug, team). foldl (add_org slug) out (tc_GitHubOrgs team)) out teams) org = Some slugs \<and>
          slug \<in> set slugs) \<longleftrightarrow>
       (\<exists>slugs. map_of out org = Some slugs \<and> slug \<in> set slugs) \<or>
       (\<exists>team. (slug, team) \<in> set teams \<and> org \<in> set (tc_GitHubOrgs team)))" if "gomap out" for out teams
    using that
  proof (induction teams arbitrary: out)
    case (Cons entry teams)
    obtain slug' team where entry: "entry = (slug', team)" by (cases entry)
    show ?case
      using Cons.IH [of "foldl (add_org slug') out (tc_GitHubOrgs team)"]
        add_orgs [OF Cons.prems, of slug' "tc_GitHubOrgs team" org slug]
      by (auto simp: entry)
  qed simp
  from this [of "[]" "cf_Teams c"] show ?thesis by (simp add: OrgTeams_def)
qed

lemma ExcludedHandles_spec:
  "gomap (ExcludedHandles c) \<and>
   (map_of (ExcludedHandles c) h = Some True \<longleftrightarrow> (\<exists>x\<in>set (cf_Exclude c). h = toLower x))"
proof -
  have "gomap (foldl (\<lambda>out h. put (toLower h) True out) out hs) \<and>
      (map_of (foldl (\<lambda>out h. put (toLower h) True out) out hs) h = Some True \<longleftrightarrow>
       map_of out h = Some True \<or> (\<exists>x\<in>set hs. h = toLower x))" if "gomap out" for out hs
    using that by (induction hs arbitrary: out) (auto simp: gomap_simps)
  from this [of "[]" "cf_Exclude c"] show ?thesis by (simp add: ExcludedHandles_def)
qed

lemma ManualMembers_spec:
  assumes "gomap (cf_Teams c)"
  shows "gomap (ManualMembers c) \<and>
    (map_of (ManualMembers c) slug = Some handles \<longleftrightarrow>
     (\<exists>team. map_of (cf_Teams c) slug = Some team \<and> tc_Members team = handles \<and> handles \<noteq> []))"
proof -
  let ?add = "\<lambda>out (slug, team). if tc_Members team \<noteq> [] then put slug (tc_Members team) out else out"
  have "gomap (foldl ?add out teams) \<and>
      map_of (foldl ?add out teams) slug =
        (case map_of teams slug of
           Some team \<Rightarrow> if tc_Members team \<noteq> [] then Some (tc_Members team) else map_of out slug
         | None \<Rightarrow> map_of out slug)" if "gomap teams" "gomap out" for out teams
    using that
  proof (induction teams arbitrary: out)
    case (Cons entry teams)
    obtain slug' team where entry: "entry = (slug', team)" by (cases entry)
    have "slug' \<notin> keys_of teams" "gomap teams"
      using Cons.prems(1) by (simp_all add: gomap_def entry)
    then have "map_of teams slug' = None" by (simp add: map_of_eq_None_iff)
    then show ?case
      using Cons.IH [of "?add out entry"] Cons.prems(2) \<open>gomap teams\<close>
      by (auto simp: entry gomap_simps split: option.splits)
  qed simp
  from this [OF assms, of "[]"] show ?thesis
    by (auto simp: ManualMembers_def split: option.splits)
qed

text \<open>No two teams of the registry claim a section.\<close>

definition one_team_per_section :: "config \<Rightarrow> bool" where
  "one_team_per_section c \<longleftrightarrow>
     (\<forall>(slug, team)\<in>set (cf_Teams c). \<forall>(slug', team')\<in>set (cf_Teams c).
        slug \<noteq> slug' \<longrightarrow> set (tc_ProtocolGuildSections team) \<inter> set (tc_ProtocolGuildSections team') = {})"

lemma put_sections: "gomap out \<Longrightarrow> gomap (foldl (\<lambda>out section. put section slug out) out sections) \<and>
    map_of (foldl (\<lambda>out section. put section slug out) out sections) sec =
      (if sec \<in> set sections then Some slug else map_of out sec)"
  by (induction sections arbitrary: out) (auto simp: gomap_simps)

lemma SectionTeams_spec:
  "gomap (SectionTeams c) \<and>
   (map_of (SectionTeams c) sec = None \<longleftrightarrow>
      (\<forall>(slug, team)\<in>set (cf_Teams c). sec \<notin> set (tc_ProtocolGuildSections team))) \<and>
   (\<forall>slug. map_of (SectionTeams c) sec = Some slug \<longrightarrow>
      (\<exists>team. (slug, team) \<in> set (cf_Teams c) \<and> sec \<in> set (tc_ProtocolGuildSections team)))"
proof -
  let ?add = "\<lambda>out (slug, team). foldl (\<lambda>out section. put section slug out) out (tc_ProtocolGuildSections team)"
  have "gomap (foldl ?add out teams) \<and>
      (map_of (foldl ?add out teams) sec = map_of out sec \<and>
         (\<forall>(slug, team)\<in>set teams. sec \<notin> set (tc_ProtocolGuildSections team)) \<or>
       (\<exists>slug team. map_of (foldl ?add out teams) sec = Some slug \<and> (slug, team) \<in> set teams \<and>
          sec \<in> set (tc_ProtocolGuildSections team)))" if "gomap out" for out teams
    using that
  proof (induction teams arbitrary: out)
    case (Cons entry teams)
    obtain slug' team where entry: "entry = (slug', team)" by (cases entry)
    show ?case
      using Cons.IH [of "?add out entry"] put_sections [OF Cons.prems, of slug' "tc_ProtocolGuildSections team" sec]
      by (auto simp: entry split: if_splits)
  qed simp
  from this [of "[]" "cf_Teams c"] show ?thesis
    by (auto simp: SectionTeams_def)
qed

end
