(* ===== verification/GithubOrg.thy ===== *)
theory GithubOrg
  imports Source Json Http
begin

text \<open>
  Package \<open>internal/source/githuborg\<close>: the paginated client for the public members of an
  organisation (\<open>githuborg.go\<close>) and the source built on it (\<open>source.go\<close>).

  What GitHub answers is a function from the requested URL; the page loop may not end, so it is a
  partial function.
\<close>

section \<open>Dates\<close>

text \<open>
  \<open>time.Unix(secs, 0).UTC().Format(time.RFC3339)\<close>, by the proleptic Gregorian calendar
  (years of four digits).
\<close>

definition pad :: "nat \<Rightarrow> int \<Rightarrow> string" where
  "pad w n = (let s = show_int n in replicate (w - length s) CHR ''0'' @ s)"

definition civil :: "int \<Rightarrow> int \<times> int \<times> int" where
  "civil days =
     (let z = days + 719468;
          era = z div 146097;
          doe = z mod 146097;
          yoe = (doe - doe div 1460 + doe div 36524 - doe div 146096) div 365;
          doy = doe - (365 * yoe + yoe div 4 - yoe div 100);
          mp = (5 * doy + 2) div 153;
          d = doy - (153 * mp + 2) div 5 + 1;
          m = (if mp < 10 then mp + 3 else mp - 9);
          y = yoe + era * 400
      in (if m \<le> 2 then y + 1 else y, m, d))"

definition rfc3339 :: "int \<Rightarrow> string" where
  "rfc3339 secs =
     (let (y, m, d) = civil (secs div 86400); s = secs mod 86400
      in pad 4 y @ ''-'' @ pad 2 m @ ''-'' @ pad 2 d @ ''T'' @
         pad 2 (s div 3600) @ '':'' @ pad 2 (s div 60 mod 60) @ '':'' @ pad 2 (s mod 60) @ ''Z'')"

text \<open>\<open>strconv.ParseInt(s, 10, 64)\<close>.\<close>

definition is_digit :: "char \<Rightarrow> bool" where
  "is_digit c \<longleftrightarrow> CHR ''0'' \<le> c \<and> c \<le> CHR ''9''"

definition digits_value :: "string \<Rightarrow> int" where
  "digits_value s = foldl (\<lambda>n c. 10 * n + (of_char c - 48)) 0 s"

definition parseInt64 :: "string \<Rightarrow> int option" where
  "parseInt64 s =
     (let (sign, ds) = (case s of
            c # cs \<Rightarrow> (if c = CHR ''-'' then (-1, cs) else if c = CHR ''+'' then (1, cs) else (1, s))
          | [] \<Rightarrow> (1, s));
        n = sign * digits_value ds
      in if ds \<noteq> [] \<and> list_all is_digit ds \<and> - (2 ^ 63) \<le> n \<and> n < 2 ^ 63 then Some n else None)"

section \<open>The client\<close>

record org_client =
  oc_baseURL :: string
  oc_token :: string

definition NewClient :: "string \<Rightarrow> string \<Rightarrow> org_client" where
  "NewClient baseURL token = \<lparr>oc_baseURL = baseURL, oc_token = token\<rparr>"

text \<open>A response carries its status, the rate-limit header (empty when absent) and its body.\<close>

datatype org_answer =
  Org_bad_request error | Org_no_response error | Org_response nat string document

text \<open>The request: its URL and the token it is authorised with, if any.\<close>

type_synonym github = "string \<Rightarrow> string option \<Rightarrow> org_answer"

definition pageSize :: nat where
  "pageSize = 100"

fun dec_public_member :: "json \<Rightarrow> string option" where
  "dec_public_member (JObj kvs) = dec_str (field kvs ''login'')"
| "dec_public_member JNull = Some []"
| "dec_public_member _ = None"

definition rateLimitReset :: "string \<Rightarrow> string" where
  "rateLimitReset reset =
     (if reset = [] then ''reset unknown''
      else case parseInt64 reset of
          None \<Rightarrow> ''reset unknown''
        | Some secs \<Rightarrow> ''resets '' @ rfc3339 secs)"

definition page_url :: "org_client \<Rightarrow> string \<Rightarrow> nat \<Rightarrow> string" where
  "page_url c org page =
     oc_baseURL c @ ''/orgs/'' @ pathEscape org @ ''/public_members?per_page='' @ show_nat pageSize @
     ''&page='' @ show_nat page"

text \<open>A batch is the list of the logins of its members.\<close>

definition fetchPage :: "org_client \<Rightarrow> github \<Rightarrow> string \<Rightarrow> nat \<Rightarrow> error + string list" where
  "fetchPage c http org page =
     (case http (page_url c org page) (if oc_token c = [] then None else Some (oc_token c)) of
        Org_bad_request e \<Rightarrow> Inl (''build request: '' @ e)
      | Org_no_response e \<Rightarrow> Inl (''fetch org '' @ quote org @ '' members: '' @ e)
      | Org_response code reset body \<Rightarrow>
          if code = 200 then
            (case Option.bind (parse_document body) (dec_list dec_public_member) of
               None \<Rightarrow> Inl (''decode org '' @ quote org @ '' members'')
             | Some batch \<Rightarrow> Inr batch)
          else if code = 404 then Inl (''org '' @ quote org @ '' not found'')
          else if code = 403 \<or> code = 429 then
            Inl (''org '' @ quote org @ '' rate limited (status '' @ show_nat code @ '', '' @
                 rateLimitReset reset @ '')'')
          else Inl (''fetch org '' @ quote org @ '' members: unexpected status '' @ show_nat code))"

partial_function (option) members_from ::
    "org_client \<Rightarrow> github \<Rightarrow> string \<Rightarrow> nat \<Rightarrow> string list \<Rightarrow> (error + string list) option" where
  "members_from c http org page logins =
     (case fetchPage c http org page of
        Inl e \<Rightarrow> Some (Inl e)
      | Inr batch \<Rightarrow>
          if length batch < pageSize then Some (Inr (logins @ filter (\<lambda>l. l \<noteq> []) batch))
          else members_from c http org (page + 1) (logins @ filter (\<lambda>l. l \<noteq> []) batch))"

definition PublicMembers :: "org_client \<Rightarrow> github \<Rightarrow> string \<Rightarrow> (error + string list) option" where
  "PublicMembers c http org = members_from c http org 1 []"

section \<open>The source\<close>

record org_source =
  og_client :: org_client
  og_orgTeams :: "(string \<times> string list) list"

definition NewSource :: "org_client \<Rightarrow> (string \<times> string list) list \<Rightarrow> org_source" where
  "NewSource client orgTeams = \<lparr>og_client = client, og_orgTeams = orgTeams\<rparr>"

definition sortedOrgs :: "org_source \<Rightarrow> string list" where
  "sortedOrgs s = sortStrings (map fst (og_orgTeams s))"

definition teams_of_org :: "org_source \<Rightarrow> string \<Rightarrow> string list" where
  "teams_of_org s org = (case map_of (og_orgTeams s) org of None \<Rightarrow> [] | Some ts \<Rightarrow> ts)"

definition org_row :: "string \<Rightarrow> string \<Rightarrow> string \<Rightarrow> membership" where
  "org_row org login team =
     \<lparr>ms_Handle = login, ms_Team = team, ms_Source = NameGitHubOrg, ms_Org = org, ms_Name = []\<rparr>"

definition org_rows :: "org_source \<Rightarrow> string \<Rightarrow> string list \<Rightarrow> membership list" where
  "org_rows s org logins =
     concat (map (\<lambda>login. map (org_row org login) (teams_of_org s org)) logins)"

text \<open>\<open>Fetch\<close> returns when every org's page loop does.\<close>

fun fetch_orgs :: "org_source \<Rightarrow> github \<Rightarrow> string list \<Rightarrow> membership list \<Rightarrow> membership list option" where
  "fetch_orgs s http [] rows = Some rows"
| "fetch_orgs s http (org # orgs) rows =
     (case PublicMembers (og_client s) http org of
        None \<Rightarrow> None
      | Some (Inl _) \<Rightarrow> fetch_orgs s http orgs rows
      | Some (Inr logins) \<Rightarrow> fetch_orgs s http orgs (rows @ org_rows s org logins))"

definition Org_Fetch :: "org_source \<Rightarrow> github \<Rightarrow> (error + membership list) option" where
  "Org_Fetch s http = map_option Inr (fetch_orgs s http (sortedOrgs s) [])"

section \<open>Pagination\<close>

lemma members_from_pages:
  assumes "\<And>k. k < n \<Longrightarrow> \<exists>b. fetchPage c http org (page + k) = Inr b \<and> b = batch k \<and> pageSize \<le> length b"
    and "fetchPage c http org (page + n) = Inr (batch n)" and "length (batch n) < pageSize"
  shows "members_from c http org page logins =
    Some (Inr (logins @ filter (\<lambda>l. l \<noteq> []) (concat (map batch [0..<Suc n]))))"
  using assms
proof (induction n arbitrary: page logins batch)
  case 0
  then show ?case
    by (subst members_from.simps) simp
next
  case (Suc n)
  have first: "fetchPage c http org page = Inr (batch 0)" "pageSize \<le> length (batch 0)"
    using Suc.prems(1) [of 0] by auto
  have "members_from c http org (page + 1) (logins @ filter (\<lambda>l. l \<noteq> []) (batch 0)) =
      Some (Inr ((logins @ filter (\<lambda>l. l \<noteq> []) (batch 0)) @
        filter (\<lambda>l. l \<noteq> []) (concat (map (\<lambda>k. batch (Suc k)) [0..<Suc n]))))"
    using Suc.prems Suc.prems(1) [of "Suc k" for k]
    by (intro Suc.IH) (auto dest: Suc.prems(1) [of "Suc k" for k, simplified])
  moreover have "concat (map batch [0..<Suc (Suc n)]) = batch 0 @ concat (map (\<lambda>k. batch (Suc k)) [0..<Suc n])"
    by (subst upt_conv_Cons) (simp_all add: map_Suc_upt [symmetric] comp_def del: upt_Suc)
  ultimately show ?case
    using first by (subst members_from.simps) (simp del: upt_Suc)
qed

lemma members_from_error:
  assumes "\<And>k. k < n \<Longrightarrow> \<exists>b. fetchPage c http org (page + k) = Inr b \<and> pageSize \<le> length b"
    and "fetchPage c http org (page + n) = Inl e"
  shows "members_from c http org page logins = Some (Inl e)"
  using assms
proof (induction n arbitrary: page logins)
  case 0
  then show ?case by (subst members_from.simps) simp
next
  case (Suc n)
  obtain b where "fetchPage c http org page = Inr b" "pageSize \<le> length b"
    using Suc.prems(1) [of 0] by auto
  moreover have "members_from c http org (page + 1) ls = Some (Inl e)" for ls
    using Suc.prems by (intro Suc.IH) force+
  ultimately show ?case
    by (subst members_from.simps) simp
qed

lemma members_from_nonempty:
  "members_from c http org page logins = Some r \<Longrightarrow> [] \<notin> set logins \<Longrightarrow> r = Inr ls \<Longrightarrow> [] \<notin> set ls"
  by (induction arbitrary: ls rule: members_from.raw_induct [rotated, consumes 1]) (auto split: sum.splits if_splits)

lemma PublicMembers_nonempty: "PublicMembers c http org = Some (Inr ls) \<Longrightarrow> [] \<notin> set ls"
  unfolding PublicMembers_def by (erule members_from_nonempty) simp_all

text \<open>The rows of one org, none when its members cannot be had.\<close>

definition rows_of_org :: "org_source \<Rightarrow> github \<Rightarrow> string \<Rightarrow> membership list" where
  "rows_of_org s http org =
     (case PublicMembers (og_client s) http org of Some (Inr logins) \<Rightarrow> org_rows s org logins | _ \<Rightarrow> [])"

lemma fetch_orgs_eq:
  "fetch_orgs s http orgs rows =
     (if \<exists>org\<in>set orgs. PublicMembers (og_client s) http org = None then None
      else Some (rows @ concat (map (rows_of_org s http) orgs)))"
  by (induction s http orgs rows rule: fetch_orgs.induct)
    (auto simp: rows_of_org_def [abs_def] split: option.splits sum.splits)

lemma rows_of_org_well_formed: "m \<in> set (rows_of_org s http org) \<Longrightarrow> well_formed_row NameGitHubOrg m"
  using PublicMembers_nonempty [of "og_client s" http org]
  by (auto simp: rows_of_org_def org_rows_def org_row_def well_formed_row_def split: option.splits sum.splits)

definition Org_result :: "org_source \<times> github \<Rightarrow> error + membership list" where
  "Org_result env = (case Org_Fetch (fst env) (snd env) of None \<Rightarrow> Inl ''still fetching'' | Some r \<Rightarrow> r)"

interpretation github_org: membership_source NameGitHubOrg Org_result
  by unfold_locales
    (auto simp: Org_result_def Org_Fetch_def fetch_orgs_eq rows_of_org_well_formed split: if_splits)

text \<open>
  C38. Over pages of a finite listing the pagination ends, and it returns exactly the non-
  empty logins of the listing, in order.
\<close>

theorem pagination_is_complete:
  assumes "\<And>k. fetchPage c http org (k + 1) = Inr (take pageSize (drop (k * pageSize) logins))"
  shows "PublicMembers c http org = Some (Inr (filter (\<lambda>l. l \<noteq> []) logins))"
proof -
  let ?n = "length logins div pageSize"
  let ?batch = "\<lambda>k. take pageSize (drop (k * pageSize) logins)"
  have pos: "0 < pageSize" by (simp add: pageSize_def)
  have full: "pageSize \<le> length (?batch k)" if "k < ?n" for k
  proof -
    have "Suc k * pageSize \<le> ?n * pageSize"
      using that by (intro mult_right_mono) simp_all
    also have "\<dots> \<le> length logins" by simp
    finally show ?thesis by simp
  qed
  have short: "length (?batch ?n) < pageSize"
    using pos by (simp add: minus_div_mult_eq_mod)
  have "concat (map ?batch [0..<n]) = take (n * pageSize) logins" for n
    by (induction n) (simp_all add: take_add [symmetric] add.commute)
  then have "concat (map ?batch [0..<Suc ?n]) = take (Suc ?n * pageSize) logins"
    by blast
  also have "\<dots> = logins"
  proof (rule take_all)
    show "length logins \<le> Suc ?n * pageSize"
      using dividend_less_div_times [OF pos, of "length logins"] by simp
  qed
  finally have "concat (map ?batch [0..<Suc ?n]) = logins" .
  moreover have "PublicMembers c http org =
      Some (Inr ([] @ filter (\<lambda>l. l \<noteq> []) (concat (map ?batch [0..<Suc ?n]))))"
    unfolding PublicMembers_def
    by (rule members_from_pages) (use assms full short in \<open>simp_all add: add.commute\<close>)
  ultimately show ?thesis by simp
qed

text \<open>An organisation that fails is left out; the others keep their rows.\<close>

lemma failing_orgs_are_skipped:
  assumes "\<forall>org\<in>set (sortedOrgs s). PublicMembers (og_client s) http org \<noteq> None"
  shows "Org_Fetch s http = Some (Inr (concat (map (rows_of_org s http) (sortedOrgs s))))"
  using assms by (auto simp: Org_Fetch_def fetch_orgs_eq)


section \<open>A concrete GitHub\<close>

definition api_client :: org_client where
  "api_client = NewClient ''https://api.github.com'' []"

text \<open>One page of two members, the second without a login; every other page is empty.\<close>

definition two_members :: github where
  "two_members url token =
     (if url = page_url api_client ''geth'' 1
      then Org_response 200 [] (Doc (JArr [JObj [(''login'', JStr ''ada'')], JObj []]))
      else Org_response 200 [] (Doc (JArr [])))"

lemma show_nat_nonempty: "show_nat n \<noteq> []"
  by (subst show_nat.simps) simp

lemma show_nat_one: "show_nat n = show_nat 1 \<Longrightarrow> n = 1"
proof (cases "n < 10")
  case True
  assume "show_nat n = show_nat 1"
  with True have "(char_of (48 + n) :: char) = char_of (49 :: nat)"
    by (simp add: show_nat.simps)
  then have "(of_char (char_of (48 + n) :: char) :: nat) = of_char (char_of (49 :: nat) :: char)"
    by simp
  with True show ?thesis by simp
next
  case False
  assume "show_nat n = show_nat 1"
  moreover have "length (show_nat 1) = 1" by (subst show_nat.simps) simp
  ultimately have "length (show_nat n) = 1" by simp
  moreover have "length (show_nat n) = length (show_nat (n div 10)) + 1"
    using False by (simp add: show_nat.simps [of n])
  ultimately show ?thesis using show_nat_nonempty [of "n div 10"] by simp
qed

theorem pagination_is_complete_sample:
  "PublicMembers api_client two_members ''geth'' = Some (Inr [''ada''])"
proof -
  have "page_url api_client ''geth'' (k + 1) = page_url api_client ''geth'' 1 \<longleftrightarrow> k = 0" for k
    using show_nat_one [of "k + 1"] by (auto simp: page_url_def)
  then have page: "fetchPage api_client two_members ''geth'' (k + 1) =
      Inr (take pageSize (drop (k * pageSize) [''ada'', []]))" for k
    by (auto simp: fetchPage_def two_members_def field_def pageSize_def)
  show ?thesis
    using pagination_is_complete [OF page] by simp
qed

text \<open>Only the organisation geth can be had.\<close>

definition only_geth :: github where
  "only_geth url token =
     (if url = page_url api_client ''geth'' 1 then two_members url token else Org_response 503 [] (Corrupt []))"

lemma failing_orgs_are_skipped_sample:
  "Org_Fetch (NewSource api_client [(''geth'', [''geth'']), (''down'', [''reth''])]) only_geth =
     Some (Inr [org_row ''geth'' ''ada'' ''geth''])"
proof -
  let ?s = "NewSource api_client [(''geth'', [''geth'']), (''down'', [''reth''])]"
  have "pathEscape ''down'' = ''down''" "pathEscape ''geth'' = ''geth''"
    by code_simp+
  then have "page_url api_client ''down'' 1 \<noteq> page_url api_client ''geth'' 1"
    by (simp add: page_url_def)
  then have down: "\<exists>e. PublicMembers api_client only_geth ''down'' = Some (Inl e)"
    unfolding PublicMembers_def
    by (subst members_from.simps) (simp add: fetchPage_def only_geth_def)
  have geth: "PublicMembers api_client only_geth ''geth'' = Some (Inr [''ada''])"
    unfolding PublicMembers_def
    by (subst members_from.simps) (simp add: fetchPage_def only_geth_def two_members_def field_def pageSize_def)
  have orgs: "sortedOrgs ?s = [''down'', ''geth'']"
    by code_simp
  have "og_client ?s = api_client" "teams_of_org ?s ''geth'' = [''geth'']"
    by (simp_all add: NewSource_def teams_of_org_def)
  then show ?thesis
    using failing_orgs_are_skipped [of ?s only_geth] down geth
    by (auto simp: orgs rows_of_org_def org_rows_def)
qed


end
