(* ===== verification/Api.thy ===== *)
theory Api
  imports Metrics Config GithubOrg Snapshot IndexQueries
begin

text \<open>
  Package \<open>internal/api\<close>: the HTTP handlers (\<open>api.go\<close>, \<open>keys.go\<close>, \<open>web.go\<close>) and the
  routing of the server. A response body is the text, the JSON value, the list given to the YAML
  encoder, the page of metrics or the embedded HTML page.
\<close>

section \<open>Requests and responses\<close>

datatype body =
    Text_body string
  | Json_body json
  | Yaml_body "string list"
  | Metrics_body "metric list"
  | Html_page

record response =
  rs_Status :: nat
  rs_Type :: string
  rs_Body :: body

text \<open>The parameters of a query, in order; \<open>Get\<close> gives the first value or the empty string.\<close>

type_synonym query = "(string \<times> string) list"

definition query_get :: "query \<Rightarrow> string \<Rightarrow> string" where
  "query_get q key = (case map_of q key of None \<Rightarrow> [] | Some v \<Rightarrow> v)"

record handler =
  hd_cfg :: config
  hd_store :: store
  hd_statuses :: "source_status list option"  \<comment> \<open>what \<open>StatusFunc\<close> returns, \<open>None\<close> for nil\<close>
  hd_orgs :: "org_client option"
  hd_keys :: "provider option"

definition API_New ::
    "config \<Rightarrow> store \<Rightarrow> source_status list option \<Rightarrow> org_client option \<Rightarrow> provider option \<Rightarrow> handler" where
  "API_New cfg st statuses orgs keyProvider =
     \<lparr>hd_cfg = cfg, hd_store = st, hd_statuses = statuses, hd_orgs = orgs, hd_keys = keyProvider\<rparr>"

definition writeText :: "nat \<Rightarrow> string \<Rightarrow> response" where
  "writeText code text = \<lparr>rs_Status = code, rs_Type = ''text/plain; charset=utf-8'', rs_Body = Text_body text\<rparr>"

definition writeJSON :: "nat \<Rightarrow> json \<Rightarrow> response" where
  "writeJSON code j = \<lparr>rs_Status = code, rs_Type = ''application/json'', rs_Body = Json_body j\<rparr>"

definition writeYAML :: "string list \<Rightarrow> response" where
  "writeYAML xs = \<lparr>rs_Status = 200, rs_Type = ''application/yaml'', rs_Body = Yaml_body xs\<rparr>"

definition writeError :: "nat \<Rightarrow> string \<Rightarrow> response" where
  "writeError code msg = writeJSON code (JObj [(''error'', JStr msg)])"

definition lines_text :: "string list \<Rightarrow> string" where
  "lines_text xs = join [newline] xs @ [newline]"

text \<open>A \<open>map[string]any\<close> is written with its keys sorted.\<close>

definition object :: "(string \<times> json) list \<Rightarrow> json" where
  "object kvs = JObj (sort_key fst kvs)"

definition enc_count :: "nat \<Rightarrow> json" where
  "enc_count n = JNum (int n)"

section \<open>Filters\<close>

definition errUnknownSource :: error where
  "errUnknownSource = ''source must be one of protocol-guild, github-org, manual''"

definition normalizeSource :: "string \<Rightarrow> error + string" where
  "normalizeSource s =
     (let t = toLower (trimSpace s)
      in if t = [] then Inr []
         else if t \<in> {NameProtocolGuild, ''pg'', ''protocolguild''} then Inr NameProtocolGuild
         else if t \<in> {NameGitHubOrg, ''github'', ''githuborg'', ''org''} then Inr NameGitHubOrg
         else if t \<in> {NameManual, ''static''} then Inr NameManual
         else Inl errUnknownSource)"

definition sourceOrAll :: "string \<Rightarrow> string" where
  "sourceOrAll s = (if s = [] then ''all'' else s)"

definition handlesOf :: "member list \<Rightarrow> string list" where
  "handlesOf members = map mb_Handle members"

definition userInKind :: "handler \<Rightarrow> user \<Rightarrow> string \<Rightarrow> bool" where
  "userInKind h u kind \<longleftrightarrow>
     list_ex (\<lambda>slug. case map_of (cf_Teams (hd_cfg h)) slug of None \<Rightarrow> False | Some t \<Rightarrow> tc_Kind t = kind) (us_Teams u)"

section \<open>Probes and pages\<close>

definition handleIndex :: response where
  "handleIndex = \<lparr>rs_Status = 200, rs_Type = ''text/html; charset=utf-8'', rs_Body = Html_page\<rparr>"

definition handleHealthz :: response where
  "handleHealthz = writeText 200 (''ok'' @ [newline])"

definition handleReadyz :: "time \<Rightarrow> handler \<Rightarrow> response" where
  "handleReadyz now h =
     (if Store_Get (hd_store h) = None then writeText 503 (''no index'' @ [newline])
      else case hd_keys h of
          Some kp \<Rightarrow>
            if \<not> Keys_Warmed now kp then writeText 503 (''keys warming'' @ [newline])
            else writeText 200 (''ok'' @ [newline])
        | None \<Rightarrow> writeText 200 (''ok'' @ [newline]))"

text \<open>The metrics page: the registry refuses a scrape that names a series twice.\<close>

definition handleMetrics :: "handler \<Rightarrow> response" where
  "handleMetrics h =
     (let ms = Collect (newCollector (hd_store h) (case hd_statuses h of None \<Rightarrow> [] | Some sts \<Rightarrow> sts) (hd_keys h))
      in if gathers ms then \<lparr>rs_Status = 200, rs_Type = ''text/plain'', rs_Body = Metrics_body ms\<rparr>
         else writeText 500 ''An error has occurred while serving metrics'')"

section \<open>Teams and users\<close>

definition not_ready :: response where
  "not_ready = writeError 503 ''index not ready''"

definition team_summary :: "index \<Rightarrow> string \<times> team_config \<Rightarrow> json" where
  "team_summary idx entry =
     (case entry of (slug, team) \<Rightarrow>
      let members = Members idx slug []
      in JObj ([(''slug'', JStr slug)] @
               omit_if (tc_DisplayName team = []) ''displayName'' (JStr (tc_DisplayName team)) @
               omit_if (tc_Kind team = []) ''kind'' (JStr (tc_Kind team)) @
               omit_if (tc_Layer team = []) ''layer'' (JStr (tc_Layer team)) @
               [(''count'', enc_count (length members)),
                (''counts'', enc_map enc_count (countBySource members))]))"

definition handleTeams :: "query \<Rightarrow> handler \<Rightarrow> response" where
  "handleTeams q h =
     (case Store_Get (hd_store h) of
        None \<Rightarrow> not_ready
      | Some idx \<Rightarrow>
          let kindFilter = query_get q ''kind'';
              shown = filter (\<lambda>(_, team). \<not> (kindFilter \<noteq> [] \<and> tc_Kind team \<noteq> kindFilter)) (cf_Teams (hd_cfg h))
          in writeJSON 200 (object
               [(''generatedAt'', JTime (ix_GeneratedAt idx)),
                (''teams'', enc_list (team_summary idx) (sort_key fst shown))]))"

definition handleUsers :: "string \<Rightarrow> query \<Rightarrow> handler \<Rightarrow> response" where
  "handleUsers team q h =
     (case Store_Get (hd_store h) of
        None \<Rightarrow> not_ready
      | Some idx \<Rightarrow>
          if map_of (cf_Teams (hd_cfg h)) team = None then writeError 404 ''unknown team''
          else case normalizeSource (query_get q ''source'') of
              Inl e \<Rightarrow> writeError 400 e
            | Inr sourceFilter \<Rightarrow>
                let members = Members idx team sourceFilter;
                    handles = handlesOf members;
                    format = query_get q ''format''
                in if format = [] \<or> format = ''json'' then
                     writeJSON 200 (object
                       [(''team'', JStr team), (''generatedAt'', JTime (ix_GeneratedAt idx)),
                        (''source'', JStr (sourceOrAll sourceFilter)), (''count'', enc_count (length handles)),
                        (''handles'', enc_list JStr handles), (''members'', enc_list enc_member members)])
                   else if format = ''txt'' then writeText 200 (lines_text handles)
                   else if format = ''yaml'' then writeYAML handles
                   else writeError 400 ''format must be one of json, txt, yaml'')"

definition enc_user :: "user \<Rightarrow> json" where
  "enc_user u =
     JObj ([(''handle'', JStr (us_Handle u))] @
           omit_if (us_Name u = []) ''name'' (JStr (us_Name u)) @
           [(''teams'', enc_slice JStr (us_Teams u)), (''sources'', enc_slice JStr (us_Sources u))] @
           omit_if (us_Orgs u = []) ''orgs'' (enc_slice JStr (us_Orgs u)))"

definition handleAllUsers :: "query \<Rightarrow> handler \<Rightarrow> response" where
  "handleAllUsers q h =
     (case Store_Get (hd_store h) of
        None \<Rightarrow> not_ready
      | Some idx \<Rightarrow>
          case normalizeSource (query_get q ''source'') of
            Inl e \<Rightarrow> writeError 400 e
          | Inr sourceFilter \<Rightarrow>
              let kindFilter = query_get q ''kind'';
                  users = filter (\<lambda>u. \<not> (sourceFilter \<noteq> [] \<and> sourceFilter \<notin> set (us_Sources u)) \<and>
                    \<not> (kindFilter \<noteq> [] \<and> \<not> userInKind h u kindFilter)) (Users idx);
                  handles = map us_Handle users;
                  format = query_get q ''format''
              in if format = [] \<or> format = ''json'' then
                   writeJSON 200 (object
                     [(''generatedAt'', JTime (ix_GeneratedAt idx)), (''source'', JStr (sourceOrAll sourceFilter)),
                      (''count'', enc_count (length handles)), (''handles'', enc_list JStr handles),
                      (''users'', enc_list enc_user users)])
                 else if format = ''txt'' then writeText 200 (lines_text handles)
                 else if format = ''yaml'' then writeYAML handles
                 else writeError 400 ''format must be one of json, txt, yaml'')"

definition team_membership :: "string \<times> member \<Rightarrow> json" where
  "team_membership entry =
     (case entry of (slug, m) \<Rightarrow>
      JObj ([(''team'', JStr slug), (''sources'', enc_slice JStr (mb_Sources m))] @
            omit_if (mb_Orgs m = []) ''orgs'' (enc_slice JStr (mb_Orgs m))))"

text \<open>The handle is shown in the casing of the team the loop over the map visits last.\<close>

definition handleHandle :: "string \<Rightarrow> handler \<Rightarrow> response" where
  "handleHandle handle h =
     (case Store_Get (hd_store h) of
        None \<Rightarrow> not_ready
      | Some idx \<Rightarrow>
          let memberships = Lookup idx handle;
              display = foldl (\<lambda>_ (_, m). mb_Handle m) handle memberships
          in writeJSON 200 (object
               [(''handle'', JStr display), (''teams'', enc_list team_membership (sort_key fst memberships))]))"

text \<open>
  The lookup in GitHub runs for 30 seconds at most: \<open>deadline\<close> is the error of a listing that
  does not end.
\<close>

definition handleOrgMembers :: "github \<Rightarrow> error \<Rightarrow> string \<Rightarrow> query \<Rightarrow> handler \<Rightarrow> response" where
  "handleOrgMembers gh deadline org q h =
     (case hd_orgs h of
        None \<Rightarrow> writeError 503 ''github org source disabled''
      | Some client \<Rightarrow>
          case (case PublicMembers client gh org of None \<Rightarrow> Inl deadline | Some r \<Rightarrow> r) of
            Inl e \<Rightarrow> writeError 502 e
          | Inr members \<Rightarrow>
              let members = sort_key toLower members
              in if query_get q ''format'' = ''txt'' then writeText 200 (lines_text members)
                 else writeJSON 200 (object
                   [(''org'', JStr org), (''count'', enc_count (length members)),
                    (''members'', enc_slice JStr members)]))"

section \<open>Status and export\<close>

definition enc_key_status :: "key_status \<Rightarrow> json" where
  "enc_key_status st =
     JObj ([(''enabled'', JBool (ks_Enabled st)), (''handles'', enc_count (ks_Handles st)),
            (''cached'', enc_count (ks_Cached st)), (''errors'', enc_count (ks_Errors st))] @
           omit_if (isZero (ks_LastFetch st)) ''lastFetch'' (JTime (ks_LastFetch st)) @
           omit_if (isZero (ks_LastCycle st)) ''lastCycle'' (JTime (ks_LastCycle st)) @
           [(''paceSeconds'', JSeconds (ks_Pace st))])"

definition keysStatus :: "handler \<Rightarrow> key_status" where
  "keysStatus h =
     (case hd_keys h of
        None \<Rightarrow> \<lparr>ks_Enabled = False, ks_Handles = 0, ks_Cached = 0, ks_Errors = 0,
                 ks_LastFetch = zero_time, ks_LastCycle = zero_time, ks_Pace = 0\<rparr>
      | Some kp \<Rightarrow> Keys_Status kp)"

definition handleSources :: "handler \<Rightarrow> response" where
  "handleSources h =
     writeJSON 200 (object
       [(''sources'', enc_nullable (enc_list enc_status) (hd_statuses h)),
        (''keys'', enc_key_status (keysStatus h))])"

definition handleExport :: "handler \<Rightarrow> response" where
  "handleExport h =
     (case Store_Get (hd_store h) of None \<Rightarrow> not_ready | Some idx \<Rightarrow> writeJSON 200 (enc_index idx))"

section \<open>Keys\<close>

definition Keys_Source :: string where
  "Keys_Source = ''github-keys''"

definition keys_response :: "query \<Rightarrow> entry \<Rightarrow> response" where
  "keys_response q e =
     (if query_get q ''format'' = ''txt'' then writeText 200 (lines_text (en_Keys e))
      else writeJSON 200 (object
        [(''handle'', JStr (en_Handle e)), (''source'', JStr Keys_Source),
         (''count'', enc_count (length (en_Keys e))), (''keys'', enc_slice JStr (en_Keys e)),
         (''fetchedAt'', JTime (en_FetchedAt e))]))"

text \<open>
  The one handler that changes state: a cold miss of an indexed handle refreshes the provider.
  No implementation of \<open>Refresh\<close> returns an error, so its branch for one is not reached.
\<close>

definition handleHandleKeys :: "fetch_env \<Rightarrow> string \<Rightarrow> query \<Rightarrow> handler \<times> fs \<Rightarrow> response \<times> handler \<times> fs" where
  "handleHandleKeys env handle q st =
     (case st of (h, fs) \<Rightarrow>
      case hd_keys h of
        None \<Rightarrow> (writeError 503 ''key cache disabled'', st)
      | Some kp \<Rightarrow>
          case Keys_Get kp handle of
            Some e \<Rightarrow> (keys_response q e, st)
          | None \<Rightarrow>
              if (case Store_Get (hd_store h) of None \<Rightarrow> True | Some idx \<Rightarrow> Lookup idx handle = [])
              then (writeError 404 ''unknown handle'', st)
              else case Keys_Refresh env handle (kp, fs) of
                  (e, kp', fs') \<Rightarrow> (keys_response q e, h\<lparr>hd_keys := Some kp'\<rparr>, fs'))"

record handle_keys =
  hk_Handle :: string
  hk_Name :: string
  hk_Keys :: "string list option"  \<comment> \<open>\<open>None\<close> for the empty slice that is not nil\<close>
  hk_FetchedAt :: time
  hk_Pending :: bool

definition keys_of_member :: "provider \<Rightarrow> member \<Rightarrow> handle_keys" where
  "keys_of_member kp m =
     (case Keys_Get kp (mb_Handle m) of
        None \<Rightarrow> \<lparr>hk_Handle = mb_Handle m, hk_Name = mb_Name m, hk_Keys = None,
                 hk_FetchedAt = zero_time, hk_Pending = True\<rparr>
      | Some e \<Rightarrow> \<lparr>hk_Handle = mb_Handle m, hk_Name = mb_Name m, hk_Keys = Some (en_Keys e),
                   hk_FetchedAt = en_FetchedAt e, hk_Pending = isZero (en_FetchedAt e)\<rparr>)"

definition key_list :: "handle_keys \<Rightarrow> string list" where
  "key_list hk = (case hk_Keys hk of None \<Rightarrow> [] | Some ks \<Rightarrow> ks)"

definition enc_handle_keys :: "handle_keys \<Rightarrow> json" where
  "enc_handle_keys hk =
     JObj ([(''handle'', JStr (hk_Handle hk))] @
           omit_if (hk_Name hk = []) ''name'' (JStr (hk_Name hk)) @
           [(''keys'', (case hk_Keys hk of None \<Rightarrow> JArr [] | Some ks \<Rightarrow> enc_slice JStr ks))] @
           omit_if (isZero (hk_FetchedAt hk)) ''fetchedAt'' (JTime (hk_FetchedAt hk)) @
           omit_if (\<not> hk_Pending hk) ''pending'' (JBool (hk_Pending hk)))"

definition authorized_keys :: "handle_keys list \<Rightarrow> string" where
  "authorized_keys entries =
     concat (map (\<lambda>e. if key_list e = [] then []
       else ''# '' @ hk_Handle e @ [newline] @ concat (map (\<lambda>k. k @ [newline]) (key_list e))) entries)"

definition handleTeamKeys :: "string \<Rightarrow> query \<Rightarrow> handler \<Rightarrow> response" where
  "handleTeamKeys team q h =
     (case hd_keys h of
        None \<Rightarrow> writeError 503 ''key cache disabled''
      | Some kp \<Rightarrow>
          case Store_Get (hd_store h) of
            None \<Rightarrow> not_ready
          | Some idx \<Rightarrow>
              if map_of (cf_Teams (hd_cfg h)) team = None then writeError 404 ''unknown team''
              else
                let entries = map (keys_of_member kp) (Members idx team []);
                    format = query_get q ''format''
                in if format = [] \<or> format = ''txt'' then writeText 200 (authorized_keys entries)
                   else if format = ''json'' then
                     writeJSON 200 (object
                       [(''team'', JStr team), (''generatedAt'', JTime (ix_GeneratedAt idx)),
                        (''source'', JStr Keys_Source), (''handles'', enc_count (length entries)),
                        (''pending'', enc_count (length (filter hk_Pending entries))),
                        (''keyCount'', enc_count (sum_list (map (length \<circ> key_list) entries))),
                        (''members'', enc_list enc_handle_keys entries)])
                   else writeError 400 ''format must be one of txt, json'')"

section \<open>Routing\<close>

text \<open>
  The registered patterns. A path is the list of its segments (the root is the empty list); a
  wildcard does not match an empty segment.
\<close>

datatype endpoint_ref =
    Index_page | Healthz | Readyz | Metrics_page | Teams | All_users | Team_users string
  | Team_keys string | Handle string | Handle_keys string | Org_members string | Sources | Export

definition route :: "string list \<Rightarrow> endpoint_ref option" where
  "route path =
     (if path = [] then Some Index_page
      else if path = [''healthz''] then Some Healthz
      else if path = [''readyz''] then Some Readyz
      else if path = [''metrics''] then Some Metrics_page
      else if path = [''api'', ''v1'', ''teams''] then Some Teams
      else if path = [''api'', ''v1'', ''users''] then Some All_users
      else if path = [''api'', ''v1'', ''sources''] then Some Sources
      else if path = [''api'', ''v1'', ''export''] then Some Export
      else case path of
          [a, x] \<Rightarrow> if a = ''team'' \<and> x \<noteq> [] then Some Index_page else None
        | [a, v, kind, x] \<Rightarrow>
            if a = ''api'' \<and> v = ''v1'' \<and> x \<noteq> [] then
              (if kind = ''users'' then Some (Team_users x)
               else if kind = ''handles'' then Some (Handle x) else None)
            else None
        | [a, v, kind, x, what] \<Rightarrow>
            if a = ''api'' \<and> v = ''v1'' \<and> x \<noteq> [] then
              (if kind = ''users'' \<and> what = ''keys'' then Some (Team_keys x)
               else if kind = ''handles'' \<and> what = ''keys'' then Some (Handle_keys x)
               else if kind = ''orgs'' \<and> what = ''members'' then Some (Org_members x) else None)
            else None
        | _ \<Rightarrow> None)"

text \<open>What a request observes of the world, and the request.\<close>

record api_env =
  av_now :: time
  av_fetch :: fetch_env
  av_github :: github
  av_deadline :: error

record request =
  rq_Method :: string
  rq_Path :: "string list"
  rq_Query :: query

definition serve :: "api_env \<Rightarrow> query \<Rightarrow> endpoint_ref \<Rightarrow> handler \<times> fs \<Rightarrow> response \<times> handler \<times> fs" where
  "serve env q e st =
     (let h = fst st
      in case e of
        Index_page \<Rightarrow> (handleIndex, st)
      | Healthz \<Rightarrow> (handleHealthz, st)
      | Readyz \<Rightarrow> (handleReadyz (av_now env) h, st)
      | Metrics_page \<Rightarrow> (handleMetrics h, st)
      | Teams \<Rightarrow> (handleTeams q h, st)
      | All_users \<Rightarrow> (handleAllUsers q h, st)
      | Team_users team \<Rightarrow> (handleUsers team q h, st)
      | Team_keys team \<Rightarrow> (handleTeamKeys team q h, st)
      | Handle handle \<Rightarrow> (handleHandle handle h, st)
      | Handle_keys handle \<Rightarrow> handleHandleKeys (av_fetch env) handle q st
      | Org_members org \<Rightarrow> (handleOrgMembers (av_github env) (av_deadline env) org q h, st)
      | Sources \<Rightarrow> (handleSources h, st)
      | Export \<Rightarrow> (handleExport h, st))"

definition ServeHTTP :: "api_env \<Rightarrow> request \<Rightarrow> handler \<times> fs \<Rightarrow> response \<times> handler \<times> fs" where
  "ServeHTTP env rq st =
     (case route (rq_Path rq) of
        None \<Rightarrow> (writeText 404 (''404 page not found'' @ [newline]), st)
      | Some e \<Rightarrow>
          if rq_Method rq \<noteq> ''GET'' \<and> rq_Method rq \<noteq> ''HEAD''
          then (writeText 405 (''Method Not Allowed'' @ [newline]), st)
          else serve env (rq_Query rq) e st)"

end
