(* ===== verification/ApiProps.thy ===== *)
theory ApiProps
  imports Api IndexProps
begin

text \<open>
  Properties of the HTTP API: the metrics page, the text of a team's keys, and the one request that
  may reach GitHub.
\<close>

section \<open>The metrics page\<close>

lemma described:
  assumes "m \<in> set (Collect c)"
  shows "(mt_Name m, length (mt_Labels m)) \<in> set (map (\<lambda>(name, labels). (name, length labels)) Describe)"
proof -
  note [simp] = Describe_def
  have 1: ?thesis if "m \<in> set (index_metrics idx)" for idx
    using metric_names(1) [OF that] by (elim disjE conjE) simp_all
  have 2: ?thesis if "m \<in> set (status_metrics st)" for st
    using metric_names(2) [OF that] unfolding insert_iff empty_iff by (elim disjE conjE) simp_all
  have 3: ?thesis if "m \<in> set (key_metrics kst)" for kst
    using metric_names(3) [OF that] unfolding insert_iff empty_iff by (elim disjE conjE) simp_all
  consider idx where "m \<in> set (index_metrics idx)" | st where "m \<in> set (status_metrics st)"
    | kst where "m \<in> set (key_metrics kst)"
    using assms unfolding Collect_def set_append Un_iff set_concat set_map
    by (auto split: option.splits simp del: Describe_def)
  then show ?thesis using 1 2 3 by cases
qed

lemma distinct_Collect:
  assumes "\<And>idx. Store_Get (co_store c) = Some idx \<Longrightarrow> gomap (ix_Teams idx)"
    and "distinct (map ss_Name (co_statuses c))"
  shows "distinct (map series (Collect c))"
proof -
  let ?idx = "case Store_Get (co_store c) of None \<Rightarrow> [] | Some idx \<Rightarrow> index_metrics idx"
  let ?sts = "concat (map status_metrics (co_statuses c))"
  let ?keys = "case co_keys c of None \<Rightarrow> [] | Some kp \<Rightarrow> key_metrics (Keys_Status kp)"
  have "distinct (map series ?idx)"
    using assms(1) distinct_index_metrics by (simp split: option.split)
  moreover have "distinct (map series ?sts)"
    using assms(2) by (rule distinct_status_metrics)
  moreover have "distinct (map series ?keys)"
    by (simp add: key_metrics_def split: option.split)
  moreover have "series m \<noteq> series n" if "m \<in> set ?idx" "n \<in> set ?sts \<union> set ?keys" for m n
    using that by (auto simp: series_def split: option.splits dest!: metric_names)
  moreover have "series m \<noteq> series n" if "m \<in> set ?sts" "n \<in> set ?keys" for m n
    using that by (auto simp: series_def split: option.splits dest!: metric_names)
  ultimately show ?thesis
    unfolding Collect_def map_append distinct_append set_append set_map
    by (intro conjI) (blast | fastforce)+
qed

lemma member_sources_distinct: "index_wf idx \<Longrightarrow> m \<in> set (Members idx slug src) \<Longrightarrow> distinct (mb_Sources m)"
  using set_Members index_wf_member by (metis member_wf_def)

lemma Members_filter:
  assumes "index_wf idx" and "src \<noteq> []"
  shows "length (filter (\<lambda>m. src \<in> set (mb_Sources m)) (Members idx slug [])) = length (Members idx slug src)"
proof -
  have "distinct (map (\<lambda>m. toLower (mb_Handle m)) (Members idx slug s))" for s
    by (simp add: Members_keys [OF assms(1)])
  then have dist: "distinct (Members idx slug s)" for s
    using distinct_map by blast
  have "set (filter (\<lambda>m. src \<in> set (mb_Sources m)) (Members idx slug [])) = set (Members idx slug src)"
    using assms by (auto simp: set_Members)
  then show ?thesis
    using dist by (metis distinct_card distinct_filter)
qed

lemma team_gauge:
  assumes "index_wf idx" and "src \<noteq> []" and "slug \<in> set (TeamSlugs idx)"
  shows "gauge ''coredevs_team_members'' [slug, src] v \<in> set (index_metrics idx) \<longleftrightarrow>
    v = int (length (Members idx slug src)) \<and> v \<noteq> 0"
proof -
  let ?counts = "countBySource (Members idx slug [])"
  have "gauge ''coredevs_team_members'' [slug, src] v \<in> set (index_metrics idx) \<longleftrightarrow>
      (\<exists>n. (src, n) \<in> set ?counts \<and> v = int n)"
    using assms(3) by (auto simp: index_metrics_def team_metrics_def gauge_def)
  also have "\<dots> \<longleftrightarrow> (\<exists>n. map_of ?counts src = Some n \<and> v = int n)"
    using gomap_countBySource by (simp add: gomap_in_set)
  also have "\<dots> \<longleftrightarrow> v = int (length (Members idx slug src)) \<and> v \<noteq> 0"
    using member_sources_distinct [OF assms(1)] Members_filter [OF assms(1,2), of slug]
    by (auto simp: countBySource_members Let_def)
  finally show ?thesis .
qed


section \<open>The keys of a team\<close>

definition key_lines :: "handle_keys list \<Rightarrow> string list" where
  "key_lines entries = concat (map (\<lambda>e. if key_list e = [] then [] else (''# '' @ hk_Handle e) # key_list e) entries)"

lemma authorized_keys_lines: "authorized_keys entries = concat (map (\<lambda>l. l @ [newline]) (key_lines entries))"
  by (induction entries) (simp_all add: authorized_keys_def key_lines_def)

lemma split_lines: "\<forall>l\<in>set ls. newline \<notin> set l \<Longrightarrow> split_on newline (concat (map (\<lambda>l. l @ [newline]) ls)) = ls @ [[]]"
  by (induction ls) (simp_all add: split_on_append_sep split_on_no_sep)

text \<open>The lines \<open>sshd\<close> reads: not empty, and no comment.\<close>

definition is_key_line :: "string \<Rightarrow> bool" where
  "is_key_line l \<longleftrightarrow> l \<noteq> [] \<and> hd l \<noteq> CHR ''#''"

definition plain_keys :: "string list \<Rightarrow> bool" where
  "plain_keys ks \<longleftrightarrow> (\<forall>k\<in>set ks. newline \<notin> set k \<and> is_key_line k)"

lemma key_lines_filter:
  "\<forall>e\<in>set entries. plain_keys (key_list e) \<Longrightarrow>
   filter is_key_line (key_lines entries) = concat (map key_list entries)"
  by (induction entries) (auto simp: key_lines_def plain_keys_def is_key_line_def filter_id_conv)

text \<open>
  C15. The key lines of the authorized_keys file of a team are exactly the cached keys of
  its members, in the order of the members; every other line is a comment or empty.
\<close>

theorem team_file_has_exactly_the_teams_keys:
  assumes "hd_keys h = Some kp" and "Store_Get (hd_store h) = Some idx"
    and "map_of (cf_Teams (hd_cfg h)) team \<noteq> None" and "query_get q ''format'' \<in> {[], ''txt''}"
    and "\<forall>m\<in>set (Members idx team []). newline \<notin> set (mb_Handle m) \<and>
      (\<forall>e. Keys_Get kp (mb_Handle m) = Some e \<longrightarrow> plain_keys (en_Keys e))"
  shows "\<exists>b. handleTeamKeys team q h = writeText 200 b \<and>
    filter is_key_line (split_on newline b) =
      concat (map (\<lambda>m. case Keys_Get kp (mb_Handle m) of None \<Rightarrow> [] | Some e \<Rightarrow> en_Keys e) (Members idx team []))"
proof -
  let ?entries = "map (keys_of_member kp) (Members idx team [])"
  have plain: "plain_keys (key_list (keys_of_member kp m)) \<and> newline \<notin> set (hk_Handle (keys_of_member kp m))"
    if "m \<in> set (Members idx team [])" for m
    using that assms(5) by (auto simp: keys_of_member_def key_list_def plain_keys_def split: option.split)
  then have "\<forall>l\<in>set (key_lines ?entries). newline \<notin> set l"
    by (auto simp: key_lines_def plain_keys_def split: if_splits)
  then have "filter is_key_line (split_on newline (authorized_keys ?entries)) = filter is_key_line (key_lines ?entries)"
    by (simp add: authorized_keys_lines split_lines is_key_line_def)
  also have "\<dots> = concat (map key_list ?entries)"
    using plain by (intro key_lines_filter) auto
  also have "map key_list ?entries =
      map (\<lambda>m. case Keys_Get kp (mb_Handle m) of None \<Rightarrow> [] | Some e \<Rightarrow> en_Keys e) (Members idx team [])"
    by (simp add: keys_of_member_def key_list_def split: option.split)
  finally show ?thesis
    using assms(1-4) by (auto simp: handleTeamKeys_def Let_def)
qed

section \<open>Requests to GitHub\<close>

lemma serve_same: "e \<noteq> Handle_keys handle \<Longrightarrow> serve env q e st = (r, st') \<Longrightarrow>
    (\<And>x. e \<noteq> Handle_keys x) \<Longrightarrow> st' = st"
  by (auto simp: serve_def Let_def split: endpoint_ref.splits)

lemma route_handle_keys: "route path = Some (Handle_keys x) \<Longrightarrow> path = [''api'', ''v1'', ''handles'', x, ''keys'']"
  by (auto simp: route_def split: list.splits if_splits)

lemma handleHandleKeys_change:
  assumes "handleHandleKeys env handle q (h, fs) = (r, h', fs')" and "(h', fs') \<noteq> (h, fs)"
  shows "\<exists>kp idx e kp'. hd_keys h = Some kp \<and> Keys_Get kp handle = None \<and>
    Store_Get (hd_store h) = Some idx \<and> Lookup idx handle \<noteq> [] \<and>
    Keys_Refresh env handle (kp, fs) = (e, kp', fs') \<and> h' = h\<lparr>hd_keys := Some kp'\<rparr>"
proof (cases "hd_keys h")
  case None
  then show ?thesis using assms by (simp add: handleHandleKeys_def)
next
  case (Some kp)
  note kp = this
  show ?thesis
  proof (cases "Keys_Get kp handle")
    case None
    obtain e kp' fs'' where refresh: "Keys_Refresh env handle (kp, fs) = (e, kp', fs'')"
      by (metis prod_cases3)
    show ?thesis
      using assms by (auto simp: handleHandleKeys_def kp None refresh split: option.splits if_splits)
  next
    case (Some e)
    then show ?thesis using assms by (simp add: handleHandleKeys_def kp)
  qed
qed

text \<open>
  C14. The only request that changes the state of a pod is the one for the keys of an
  indexed handle that is not cached yet, and it changes the cached keys of that handle
  alone: the endpoint is no open proxy to GitHub.
\<close>

theorem only_cold_indexed_handles_are_fetched:
  assumes "ServeHTTP env rq (h, fs) = (r, h', fs')" and "(h', fs') \<noteq> (h, fs)"
  shows "\<exists>handle kp kp' idx. rq_Path rq = [''api'', ''v1'', ''handles'', handle, ''keys''] \<and>
    hd_keys h = Some kp \<and> Keys_Get kp handle = None \<and>
    Store_Get (hd_store h) = Some idx \<and> Lookup idx handle \<noteq> [] \<and>
    h' = h\<lparr>hd_keys := Some kp'\<rparr> \<and> (\<forall>g. toLower g \<noteq> toLower handle \<longrightarrow> Keys_Get kp' g = Keys_Get kp g)"
proof -
  obtain e where e: "route (rq_Path rq) = Some e" "serve env (rq_Query rq) e (h, fs) = (r, h', fs')"
    using assms by (auto simp: ServeHTTP_def split: option.splits if_splits)
  then obtain handle where handle: "e = Handle_keys handle"
    using assms(2) serve_same by (metis endpoint_ref.distinct(1))
  then have "handleHandleKeys (av_fetch env) handle (rq_Query rq) (h, fs) = (r, h', fs')"
    using e(2) by (simp add: serve_def)
  from handleHandleKeys_change [OF this assms(2)]
  obtain kp idx x kp' where found: "hd_keys h = Some kp" "Keys_Get kp handle = None"
    "Store_Get (hd_store h) = Some idx" "Lookup idx handle \<noteq> []"
    "Keys_Refresh (av_fetch env) handle (kp, fs) = (x, kp', fs')" "h' = h\<lparr>hd_keys := Some kp'\<rparr>"
    by blast
  have "Keys_Get kp' g = Keys_Get kp g" if "toLower g \<noteq> toLower handle" for g
    using any_provider.refresh_frame [where g = g and h = handle and s = "(kp, fs)" and env = "av_fetch env"]
      that found(5) by simp
  then show ?thesis
    using found e(1) handle route_handle_keys by blast
qed

section \<open>A sample pod\<close>

definition sample_team :: team_config where
  "sample_team = \<lparr>tc_DisplayName = ''Geth'', tc_Kind = ''client'', tc_Layer = ''el'', tc_ProtocolGuildSections = [],
     tc_GitHubOrgs = [''ethereum''], tc_Members = [''Ada'']\<rparr>"

definition sample_reader :: reader where
  "sample_reader = Reader_Replace [(''ada'', zero_entry\<lparr>en_Handle := ''Ada'', en_Keys := [''ssh-rsa A'', ''ssh-rsa B''], en_FetchedAt := 5\<rparr>)] 7 NewReader"

definition sample_status :: source_status where
  "sample_status = zero_status\<lparr>ss_Name := ''manual''\<rparr>"

definition sample_handler :: handler where
  "sample_handler = API_New (Default\<lparr>cf_Teams := [(''geth'', sample_team)]\<rparr>) (Store_Set NewStore (Build 7 sample_rows))
     (Some [sample_status]) None (Some (Published sample_reader))"

lemma sample_handler_fields:
  "hd_keys sample_handler = Some (Published sample_reader)"
  "Store_Get (hd_store sample_handler) = Some (Build 7 sample_rows)"
  "hd_statuses sample_handler = Some [sample_status]"
  "map_of (cf_Teams (hd_cfg sample_handler)) ''geth'' \<noteq> None"
  by (simp_all add: sample_handler_def API_New_def)

lemma sample_geth: "Members (Build 7 sample_rows) ''geth'' [] =
    [\<lparr>mb_Handle = ''Ada'', mb_Name = ''Ada L.'', mb_Sources = [''github-org'', ''manual''], mb_Orgs = [''ethereum'']\<rparr>]"
  by code_simp

lemma sample_lookup: "Lookup (Build 7 sample_rows) ''bob'' \<noteq> []" 
  by code_simp

lemma sample_slugs: "TeamSlugs (Build 7 sample_rows) = [''geth'', ''reth'']"
  by code_simp


theorem team_file_has_exactly_the_teams_keys_sample:
  "\<exists>b. handleTeamKeys ''geth'' [] sample_handler = writeText 200 b \<and>
     filter is_key_line (split_on newline b) = [''ssh-rsa A'', ''ssh-rsa B'']"
proof -
  have get: "Keys_Get (Published sample_reader) ''Ada'' =
      Some (zero_entry\<lparr>en_Handle := ''Ada'', en_Keys := [''ssh-rsa A'', ''ssh-rsa B''], en_FetchedAt := 5\<rparr>)"
    by code_simp
  show ?thesis
    using team_file_has_exactly_the_teams_keys [OF sample_handler_fields(1,2,4), of "[]"]
    by (simp add: query_get_def sample_geth get plain_keys_def is_key_line_def del: Keys_Get.simps)
qed

definition keys_offline :: fetch_env where
  "keys_offline = \<lparr>fv_now = 9, fv_http = (\<lambda>url. No_response ''timeout''), fv_disk = healthy_disk\<rparr>"

definition sample_cache :: cache where
  "sample_cache = Cache_New \<lparr>kc_Enabled = True, kc_BaseURL = [], kc_RefreshInterval = 60,
     kc_MaxRequestsPerSecond = 5, kc_WarmTimeout = 0, kc_CacheDir = []\<rparr>"

definition sample_writer :: handler where
  "sample_writer = sample_handler\<lparr>hd_keys := Some (Live sample_cache)\<rparr>"

definition bob_keys :: request where
  "bob_keys = \<lparr>rq_Method = ''GET'', rq_Path = [''api'', ''v1'', ''handles'', ''bob'', ''keys''], rq_Query = []\<rparr>"

definition offline :: api_env where
  "offline = \<lparr>av_now = 9, av_fetch = keys_offline, av_github = two_members, av_deadline = ''deadline''\<rparr>"

lemma sample_miss:
  "\<exists>e c'. Keys_Refresh keys_offline ''bob'' (Live sample_cache, []) = (e, Live c', []) \<and> ca_entries c' \<noteq> []"
  by (simp add: Cache_Refresh_def Cache_fetchOne_def Let_def Cache_fetch_def keys_offline_def sample_cache_def
      Cache_New_def final_state_def split: prod.split)

theorem only_cold_indexed_handles_are_fetched_sample:
  "\<exists>r h'. ServeHTTP offline bob_keys (sample_writer, []) = (r, h', []) \<and> hd_keys h' \<noteq> hd_keys sample_writer \<and>
     Keys_Get (Live sample_cache) ''bob'' = None"
proof -
  obtain e c' where refresh: "Keys_Refresh keys_offline ''bob'' (Live sample_cache, []) = (e, Live c', [])" "ca_entries c' \<noteq> []"
    using sample_miss by blast
  have miss: "Keys_Get (Live sample_cache) ''bob'' = None"
    by (simp add: Cache_Get_def sample_cache_def Cache_New_def)
  let ?h = "sample_writer\<lparr>hd_keys := Some (Live c')\<rparr>"
  have "ServeHTTP offline bob_keys (sample_writer, []) = (keys_response [] e, ?h, [])"
    using refresh(1) miss sample_lookup sample_handler_fields(2)
    by (simp add: ServeHTTP_def bob_keys_def route_def serve_def handleHandleKeys_def sample_writer_def offline_def
        del: Keys_Get.simps Keys_Refresh.simps)
  moreover have "c' \<noteq> sample_cache"
    using refresh(2) by (auto simp: sample_cache_def Cache_New_def)
  then have "hd_keys ?h \<noteq> hd_keys sample_writer"
    by (simp add: sample_writer_def)
  ultimately show ?thesis
    using only_cold_indexed_handles_are_fetched [of offline bob_keys sample_writer "[]" "keys_response [] e" ?h "[]"]
      miss by auto
qed

end
