(* ===== verification/Manual.thy ===== *)
theory Manual
  imports Source
begin

text \<open>
  Package \<open>internal/source/manual\<close>: the members listed per team in the configuration.
\<close>

type_synonym manual_source = "(string \<times> string list) list"

definition Manual_New :: "(string \<times> string list) list \<Rightarrow> manual_source" where
  "Manual_New teamHandles = teamHandles"

definition sortedTeams :: "manual_source \<Rightarrow> string list" where
  "sortedTeams s = sortStrings (map fst s)"

definition handles_for :: "manual_source \<Rightarrow> string \<Rightarrow> string list" where
  "handles_for s team = (case map_of s team of None \<Rightarrow> [] | Some hs \<Rightarrow> hs)"

definition manual_row :: "string \<Rightarrow> string \<Rightarrow> membership" where
  "manual_row team handle =
     \<lparr>ms_Handle = handle, ms_Team = team, ms_Source = NameManual, ms_Org = [], ms_Name = []\<rparr>"

definition Manual_Fetch :: "manual_source \<Rightarrow> error + membership list" where
  "Manual_Fetch s =
     Inr (concat (map (\<lambda>team.
       map (manual_row team) (filter (\<lambda>handle. handle \<noteq> []) (handles_for s team))) (sortedTeams s)))"

interpretation manual: membership_source NameManual Manual_Fetch
  by unfold_locales (auto simp: Manual_Fetch_def well_formed_row_def manual_row_def)

text \<open>Exactly the configured pairs, whatever the order of the map.\<close>

lemma Manual_Fetch_rows:
  assumes "gomap s" and "Manual_Fetch s = Inr rows"
  shows "m \<in> set rows \<longleftrightarrow>
    (\<exists>team handle. map_of s team \<noteq> None \<and> handle \<in> set (handles_for s team) \<and> handle \<noteq> [] \<and>
       m = manual_row team handle)"
proof -
  have "team \<in> set (sortedTeams s) \<longleftrightarrow> map_of s team \<noteq> None" for team
    by (simp add: sortedTeams_def map_of_eq_None_iff)
  moreover have "rows = concat (map (\<lambda>team.
      map (manual_row team) (filter (\<lambda>handle. handle \<noteq> []) (handles_for s team))) (sortedTeams s))"
    using assms(2) by (simp add: Manual_Fetch_def)
  then have "set rows = (\<Union>team\<in>set (sortedTeams s).
      manual_row team ` {handle \<in> set (handles_for s team). handle \<noteq> []})"
    by simp
  ultimately show ?thesis by blast
qed

lemma Manual_Fetch_order:
  assumes "gomap s" and "gomap s'" and "map_of s = map_of s'"
  shows "Manual_Fetch s = Manual_Fetch s'"
proof -
  have "mset (map fst s) = mset (map fst s')"
    using gomap_same_mset [OF assms] by (metis mset_map)
  then have "sortedTeams s = sortedTeams s'"
    unfolding sortedTeams_def by (rule sort_unique)
  then show ?thesis
    by (simp add: Manual_Fetch_def handles_for_def assms(3))
qed

end
