(* ===== verification/Regex.thy ===== *)
theory Regex
  imports Prelude
begin

text \<open>
  What the Protocol Guild parser uses of \<open>regexp\<close>: concatenations of literals, character
  classes under greedy and lazy repetition, options, alternatives and the end anchor, with
  leftmost-first matching. A pattern is a list of items, and \<open>run\<close> lists its matches at the
  front of a text in the order of preference, so that the first one is Go's.

  The classes of the program's patterns either are ASCII or exclude only ASCII characters, so
  matching bytes is matching runes.
\<close>

section \<open>Patterns\<close>

datatype rx =
    One "char \<Rightarrow> bool"      \<comment> \<open>one character of a class\<close>
  | Text string            \<comment> \<open>a literal\<close>
  | Star "char \<Rightarrow> bool"     \<comment> \<open>\<open>*\<close>\<close>
  | Plus "char \<Rightarrow> bool"     \<comment> \<open>\<open>+\<close>\<close>
  | Lazy "char \<Rightarrow> bool"     \<comment> \<open>\<open>+?\<close>\<close>
  | Opt string             \<comment> \<open>an optional literal\<close>
  | Alts "string list"      \<comment> \<open>alternatives\<close>
  | Cap rx                 \<comment> \<open>a group\<close>
  | End                    \<comment> \<open>\<open>$\<close>\<close>

text \<open>The ways to split off a front of class characters, the shortest first.\<close>

fun fronts :: "(char \<Rightarrow> bool) \<Rightarrow> string \<Rightarrow> (string \<times> string) list" where
  "fronts p [] = [([], [])]"
| "fronts p (c # cs) =
     ([], c # cs) # (if p c then map (\<lambda>(a, b). (c # a, b)) (fronts p cs) else [])"

definition fronts1 :: "(char \<Rightarrow> bool) \<Rightarrow> string \<Rightarrow> (string \<times> string) list" where
  "fronts1 p s =
     (case s of
        [] \<Rightarrow> []
      | c # cs \<Rightarrow> if p c then map (\<lambda>(a, b). (c # a, b)) (fronts p cs) else [])"

definition literal :: "string \<Rightarrow> string \<Rightarrow> (string \<times> string) list" where
  "literal w s = (if starts_with w s then [(w, drop (length w) s)] else [])"

text \<open>What an item may consume (with the rest of the text), and what it captures.\<close>

fun step :: "rx \<Rightarrow> string \<Rightarrow> (string \<times> string) list" where
  "step (One p) s = (case s of [] \<Rightarrow> [] | c # cs \<Rightarrow> if p c then [([c], cs)] else [])"
| "step (Text w) s = literal w s"
| "step (Star p) s = rev (fronts p s)"
| "step (Plus p) s = rev (fronts1 p s)"
| "step (Lazy p) s = fronts1 p s"
| "step (Opt w) s = literal w s @ [([], s)]"
| "step (Alts ws) s = concat (map (\<lambda>w. literal w s) ws)"
| "step (Cap r) s = step r s"
| "step End s = (if s = [] then [([], [])] else [])"

fun captures :: "rx \<Rightarrow> string \<Rightarrow> string list" where
  "captures (Cap r) taken = [taken]"
| "captures _ taken = []"

fun run :: "rx list \<Rightarrow> string \<Rightarrow> (string list \<times> string) list" where
  "run [] s = [([], s)]"
| "run (r # rs) s =
     concat (map (\<lambda>(taken, rest). map (\<lambda>(caps, rest'). (captures r taken @ caps, rest')) (run rs rest)) (step r s))"

text \<open>
  A pattern anchored at the front (\<open>^\<close>): the groups of the preferred match. Then the search
  for the leftmost match: the text before it, its groups, and the text after it.
\<close>

definition match_front :: "rx list \<Rightarrow> string \<Rightarrow> string list option" where
  "match_front rs s = (case run rs s of [] \<Rightarrow> None | (caps, _) # _ \<Rightarrow> Some caps)"

fun search :: "rx list \<Rightarrow> string \<Rightarrow> (string \<times> string list \<times> string) option" where
  "search rs s =
     (case run rs s of
        (caps, rest) # _ \<Rightarrow> Some ([], caps, rest)
      | [] \<Rightarrow> (case s of
                [] \<Rightarrow> None
              | c # cs \<Rightarrow> map_option (\<lambda>(before, m). (c # before, m)) (search rs cs)))"

declare search.simps [simp del]

lemma fronts_split: "(a, b) \<in> set (fronts p s) \<longleftrightarrow> s = a @ b \<and> list_all p a"
  by (induction p s arbitrary: a b rule: fronts.induct) (auto simp: Cons_eq_append_conv)

lemma fronts1_split: "(a, b) \<in> set (fronts1 p s) \<longleftrightarrow> s = a @ b \<and> list_all p a \<and> a \<noteq> []"
  by (cases s)
    (auto simp: fronts1_def fronts_split Cons_eq_append_conv image_iff Bex_def split_paired_Ex
      simp del: split_paired_All)

lemma step_consumes: "(taken, rest) \<in> set (step r s) \<Longrightarrow> s = taken @ rest"
  by (induction r s rule: step.induct)
    (auto simp: literal_def starts_with_iff fronts_split fronts1_split split: list.splits if_splits)

lemma run_shortens: "(caps, rest) \<in> set (run rs s) \<Longrightarrow> length rest \<le> length s"
proof (induction rs arbitrary: s caps)
  case Nil
  then show ?case by simp
next
  case (Cons r rs)
  then obtain taken mid caps' where "(taken, mid) \<in> set (step r s)" "(caps', rest) \<in> set (run rs mid)"
    by auto
  with Cons.IH step_consumes [of taken mid r s] show ?case by fastforce
qed

lemma search_shortens: "search rs s = Some (before, caps, rest) \<Longrightarrow> length rest \<le> length s"
proof (induction s arbitrary: before)
  case Nil
  then show ?case
    using run_shortens [of caps rest rs "[]"]
    by (subst (asm) search.simps) (auto split: list.splits)
next
  case (Cons c cs)
  then show ?case
    using run_shortens [of caps rest rs "c # cs"]
    by (subst (asm) search.simps) (auto split: list.splits intro: le_SucI)
qed

text \<open>
  \<open>FindAllStringSubmatch\<close> and \<open>ReplaceAllString(s, "")\<close> for patterns that never match the
  empty text: the matches from left to right, and what lies between them.
\<close>

function findAll :: "rx list \<Rightarrow> string \<Rightarrow> string list list" where
  "findAll rs s =
     (case search rs s of
        None \<Rightarrow> []
      | Some (before, caps, rest) \<Rightarrow>
          caps # (if length rest < length s then findAll rs rest else []))"
  by pat_completeness auto
termination
  by (relation "measure (\<lambda>(rs, s). length s)") auto

function removeAll :: "rx list \<Rightarrow> string \<Rightarrow> string" where
  "removeAll rs s =
     (case search rs s of
        None \<Rightarrow> s
      | Some (before, caps, rest) \<Rightarrow>
          before @ (if length rest < length s then removeAll rs rest else rest))"
  by pat_completeness auto
termination
  by (relation "measure (\<lambda>(rs, s). length s)") auto

declare findAll.simps [simp del] removeAll.simps [simp del]

section \<open>Evaluating patterns\<close>

lemma fronts_none: "rest = [] \<or> \<not> p (hd rest) \<Longrightarrow> fronts p rest = [([], rest)]"
  by (cases rest) auto

lemma concat_map_single_out:
  "(\<And>x. x \<in> set xs \<Longrightarrow> f x = []) \<Longrightarrow> concat (map f (xs @ [y])) = f y"
  "(\<And>x. x \<in> set xs \<Longrightarrow> f x = []) \<Longrightarrow> concat (map f (y # xs)) = f y"
  by simp_all

text \<open>
  A repeated class before something that fails on every character of the class takes the whole
  run of them, greedy or lazy.
\<close>

definition stops :: "(char \<Rightarrow> bool) \<Rightarrow> rx list \<Rightarrow> bool" where
  "stops p rs \<longleftrightarrow> (\<forall>c cs. p c \<longrightarrow> run rs (c # cs) = [])"

lemma fronts_last:
  "list_all p xs \<Longrightarrow> rest = [] \<or> \<not> p (hd rest) \<Longrightarrow>
   \<exists>init. fronts p (xs @ rest) = init @ [(xs, rest)] \<and> (\<forall>(a, b)\<in>set init. \<exists>c cs. b = c # cs \<and> p c)"
proof (induction xs)
  case Nil
  then show ?case by (simp add: fronts_none)
next
  case (Cons x xs)
  then obtain init where init: "fronts p (xs @ rest) = init @ [(xs, rest)]"
    "\<forall>(a, b)\<in>set init. \<exists>c cs. b = c # cs \<and> p c"
    by auto
  show ?case
    using Cons.prems(1) init(2)
    by (intro exI [of _ "([], x # xs @ rest) # map (\<lambda>(a, b). (x # a, b)) init"]) (auto simp: init(1))
qed

lemma fronts1_last:
  assumes "list_all p xs" and "xs \<noteq> []" and "rest = [] \<or> \<not> p (hd rest)"
  shows "\<exists>init. fronts1 p (xs @ rest) = init @ [(xs, rest)] \<and> (\<forall>(a, b)\<in>set init. \<exists>c cs. b = c # cs \<and> p c)"
proof -
  obtain x ys where xs: "xs = x # ys" using assms(2) by (cases xs) auto
  with assms obtain init where init: "fronts p (ys @ rest) = init @ [(ys, rest)]"
    "\<forall>(a, b)\<in>set init. \<exists>c cs. b = c # cs \<and> p c"
    using fronts_last [of p ys rest] by auto
  show ?thesis
    using assms(1) init(2)
    by (intro exI [of _ "map (\<lambda>(a, b). (x # a, b)) init"]) (auto simp: fronts1_def xs init(1))
qed

lemma run_step: "run (r # rs) s = concat (map (\<lambda>(taken, rest).
    map (\<lambda>(caps, rest'). (captures r taken @ caps, rest')) (run rs rest)) (step r s))"
  by simp

lemma concat_only:
  assumes "\<forall>(a, b)\<in>set init. \<exists>c cs. b = c # cs \<and> p c" and "stops p rs"
  shows "concat (map (\<lambda>(taken, rest). map (f taken) (run rs rest)) (init @ [(xs, rest)])) = map (f xs) (run rs rest)"
    and "concat (map (\<lambda>(taken, rest). map (f taken) (run rs rest)) (rev (init @ [(xs, rest)]))) = map (f xs) (run rs rest)"
proof -
  have none: "run rs b = []" if "(a, b) \<in> set init" for a b
    using assms that by (fastforce simp: stops_def)
  then show "concat (map (\<lambda>(taken, rest). map (f taken) (run rs rest)) (init @ [(xs, rest)])) = map (f xs) (run rs rest)"
    and "concat (map (\<lambda>(taken, rest). map (f taken) (run rs rest)) (rev (init @ [(xs, rest)]))) = map (f xs) (run rs rest)"
    by auto
qed

lemma run_class:
  assumes "list_all p xs" and "rest = [] \<or> \<not> p (hd rest)" and "stops p rs"
  shows "run (Star p # rs) (xs @ rest) = run rs rest"
    and "run (Cap (Star p) # rs) (xs @ rest) = map (\<lambda>(caps, r). (xs # caps, r)) (run rs rest)"
    and "xs \<noteq> [] \<Longrightarrow> run (Plus p # rs) (xs @ rest) = run rs rest"
    and "xs \<noteq> [] \<Longrightarrow> run (Cap (Plus p) # rs) (xs @ rest) = map (\<lambda>(caps, r). (xs # caps, r)) (run rs rest)"
    and "xs \<noteq> [] \<Longrightarrow> run (Cap (Lazy p) # rs) (xs @ rest) = map (\<lambda>(caps, r). (xs # caps, r)) (run rs rest)"
proof -
  obtain init where init: "fronts p (xs @ rest) = init @ [(xs, rest)]"
    "\<forall>(a, b)\<in>set init. \<exists>c cs. b = c # cs \<and> p c"
    using fronts_last [OF assms(1,2)] by blast
  note pick = concat_only [OF init(2) assms(3)]
  show "run (Star p # rs) (xs @ rest) = run rs rest"
    using pick(2) [of "\<lambda>t (caps, r). (caps, r)" xs rest] by (simp add: init(1) split_def)
  show "run (Cap (Star p) # rs) (xs @ rest) = map (\<lambda>(caps, r). (xs # caps, r)) (run rs rest)"
    using pick(2) [of "\<lambda>t (caps, r). (t # caps, r)" xs rest] by (simp add: init(1))
  assume "xs \<noteq> []"
  then obtain init where init: "fronts1 p (xs @ rest) = init @ [(xs, rest)]"
    "\<forall>(a, b)\<in>set init. \<exists>c cs. b = c # cs \<and> p c"
    using fronts1_last [OF assms(1) _ assms(2)] by blast
  note pick = concat_only [OF init(2) assms(3)]
  show "run (Plus p # rs) (xs @ rest) = run rs rest"
    using pick(2) [of "\<lambda>t (caps, r). (caps, r)" xs rest] by (simp add: init(1) split_def)
  show "run (Cap (Plus p) # rs) (xs @ rest) = map (\<lambda>(caps, r). (xs # caps, r)) (run rs rest)"
    using pick(2) [of "\<lambda>t (caps, r). (t # caps, r)" xs rest] by (simp add: init(1))
  show "run (Cap (Lazy p) # rs) (xs @ rest) = map (\<lambda>(caps, r). (xs # caps, r)) (run rs rest)"
    using pick(1) [of "\<lambda>t (caps, r). (t # caps, r)" xs rest] by (simp add: init(1))
qed

lemma run_text: "run (Text w # rs) (w @ rest) = run rs rest"
proof -
  have "literal w (w @ rest) = [(w, rest)]"
    by (simp add: literal_def starts_with_iff)
  then show ?thesis by (simp add: split_def)
qed

lemma run_text_fails: "\<not> starts_with w s \<Longrightarrow> run (Text w # rs) s = []"
  by (simp add: literal_def)

lemma stops_text: "(\<And>c. p c \<Longrightarrow> c \<noteq> x) \<Longrightarrow> stops p (Text (x # xs) # rs)"
  by (auto simp: stops_def literal_def)

lemma run_Nil_class [simp]: "run [Star p] [] = [([], [])]"
  by simp

end
