(* ===== verification/ProtocolGuild.thy ===== *)
theory ProtocolGuild
  imports Source Http Regex
begin

text \<open>
  Package \<open>internal/source/protocolguild\<close>: the parser of the membership document and the
  source around it, with its record of the configured sections the document lacks.
\<close>

section \<open>The patterns\<close>

definition ws :: "char \<Rightarrow> bool" where
  "ws c \<longleftrightarrow> c \<in> {CHR 0x09, CHR 0x0A, CHR 0x0C, CHR 0x0D, CHR 0x20}"

definition digit :: "char \<Rightarrow> bool" where
  "digit c \<longleftrightarrow> CHR ''0'' \<le> c \<and> c \<le> CHR ''9''"

definition login_char :: "char \<Rightarrow> bool" where
  "login_char c \<longleftrightarrow> (CHR ''A'' \<le> c \<and> c \<le> CHR ''Z'') \<or> (CHR ''a'' \<le> c \<and> c \<le> CHR ''z'') \<or>
     (CHR ''0'' \<le> c \<and> c \<le> CHR ''9'') \<or> c = CHR ''-''"

definition teamHeaderRe :: "rx list" where
  "teamHeaderRe = [Text ''|'', Star ws, Text ''**'', Cap (Lazy (\<lambda>c. c \<noteq> CHR ''*'')), Text ''**'',
     Star (\<lambda>c. c \<noteq> CHR ''|''), Text ''|'']"

text \<open>A hyphen, an en dash or an em dash.\<close>

definition dashes :: "string list" where
  "dashes = [''-'', [CHR 0xE2, CHR 0x80, CHR 0x93], [CHR 0xE2, CHR 0x80, CHR 0x94]]"

definition headerCountRe :: "rx list" where
  "headerCountRe = [Star ws, Alts dashes, Star ws, Plus digit, Plus ws,
     Alts [''M'', ''m''], Text ''ember'', Opt ''s'', End]"

definition memberLinkRe :: "rx list" where
  "memberLinkRe = [Text ''|'', Star ws, Text ''['', Cap (Plus (\<lambda>c. c \<noteq> CHR '']'')), Text '']('',
     Cap (Star (\<lambda>c. c \<noteq> CHR '')''))]"

definition githubUserRe :: "rx list" where
  "githubUserRe = [Text ''github.com/'', Cap (Plus login_char), Opt ''/'', End]"

section \<open>Rows\<close>

definition sectionName :: "string \<Rightarrow> string" where
  "sectionName cell = trimSpace (removeAll headerCountRe (trimSpace cell))"

definition parseMemberRow :: "string \<Rightarrow> (string \<times> string) option" where
  "parseMemberRow line =
     (case match_front memberLinkRe line of
        None \<Rightarrow> None
      | Some m \<Rightarrow>
          let name = trimSpace (m ! 0);
              matches = findAll githubUserRe (m ! 1)
          in if matches = [] then None else Some (name, last matches ! 0))"

section \<open>The source\<close>

record guild =
  pg_url :: string
  pg_sections :: "(string \<times> string) list"
  pg_maxMissing :: int
  pg_missing :: "string list"

definition Guild_New :: "string \<Rightarrow> (string \<times> string) list \<Rightarrow> int \<Rightarrow> guild" where
  "Guild_New url sections maxMissing =
     \<lparr>pg_url = url, pg_sections = sections, pg_maxMissing = maxMissing, pg_missing = []\<rparr>"

definition Guild_Warnings :: "guild \<Rightarrow> string list" where
  "Guild_Warnings s = pg_missing s"

definition setMissing :: "string list \<Rightarrow> guild \<Rightarrow> guild" where
  "setMissing missing s = s\<lparr>pg_missing := missing\<rparr>"

text \<open>
  The loop of \<open>parse\<close>: the rows and the section headers so far, and the current team
  (empty when there is none).
\<close>

record parsing =
  pa_rows :: "membership list"
  pa_seen :: "(string \<times> bool) list"
  pa_team :: string

definition guild_row :: "string \<Rightarrow> string \<Rightarrow> string \<Rightarrow> membership" where
  "guild_row team name handle =
     \<lparr>ms_Handle = handle, ms_Team = team, ms_Source = NameProtocolGuild, ms_Org = [], ms_Name = name\<rparr>"

definition team_of_section :: "guild \<Rightarrow> string \<Rightarrow> string" where
  "team_of_section s section = (case map_of (pg_sections s) section of None \<Rightarrow> [] | Some team \<Rightarrow> team)"

definition parse_line :: "guild \<Rightarrow> parsing \<Rightarrow> string \<Rightarrow> parsing" where
  "parse_line s st raw =
     (let line = trimSpace raw
      in if starts_with ''#'' line then st\<lparr>pa_team := []\<rparr>
         else case match_front teamHeaderRe line of
             Some m \<Rightarrow>
               let section = sectionName (m ! 0)
               in st\<lparr>pa_seen := put section True (pa_seen st), pa_team := team_of_section s section\<rparr>
           | None \<Rightarrow>
               if pa_team st = [] then st
               else case parseMemberRow line of
                   None \<Rightarrow> st
                 | Some (name, handle) \<Rightarrow>
                     st\<lparr>pa_rows := pa_rows st @ [guild_row (pa_team st) name handle]\<rparr>)"

definition parse :: "guild \<Rightarrow> string \<Rightarrow> membership list \<times> (string \<times> bool) list" where
  "parse s doc =
     (let st = foldl (parse_line s) \<lparr>pa_rows = [], pa_seen = [], pa_team = []\<rparr> (split_on newline doc)
      in (pa_rows st, pa_seen st))"

definition missingSections :: "guild \<Rightarrow> (string \<times> bool) list \<Rightarrow> string list" where
  "missingSections s seen =
     sortStrings (filter (\<lambda>section. map_of seen section \<noteq> Some True) (map fst (pg_sections s)))"

definition too_many_missing :: "guild \<Rightarrow> string list \<Rightarrow> error" where
  "too_many_missing s missing =
     show_nat (length missing) @ '' of '' @ show_nat (length (pg_sections s)) @
     '' configured sections missing from document (budget '' @ show_int (pg_maxMissing s) @ ''): '' @
     join '', '' missing"

definition Guild_Fetch :: "upstream \<Rightarrow> guild \<Rightarrow> (error + membership list) \<times> guild" where
  "Guild_Fetch http s =
     (case http (pg_url s) of
        Bad_request e \<Rightarrow> (Inl (''build request: '' @ e), s)
      | No_response e \<Rightarrow> (Inl (''fetch membership document: '' @ e), s)
      | Response code body read_err \<Rightarrow>
          if code \<noteq> 200 then
            (Inl (''fetch membership document: unexpected status '' @ show_nat code), s)
          else case read_err of
              Some e \<Rightarrow> (Inl (''read membership document: '' @ e), s)
            | None \<Rightarrow>
                let (memberships, seen) = parse s body;
                    missing = missingSections s seen;
                    s' = setMissing missing s
                in if missing \<noteq> [] \<and> pg_maxMissing s > 0 \<and> int (length missing) > pg_maxMissing s
                   then (Inl (too_many_missing s missing), s')
                   else (Inr memberships, s'))"

section \<open>The rows are well formed\<close>

lemma in_run_Cons: "(caps, rest) \<in> set (run (r # rs) s) \<longleftrightarrow>
    (\<exists>taken mid caps'. (taken, mid) \<in> set (step r s) \<and> (caps', rest) \<in> set (run rs mid) \<and>
       caps = captures r taken @ caps')"
proof
  assume "\<exists>taken mid caps'. (taken, mid) \<in> set (step r s) \<and> (caps', rest) \<in> set (run rs mid) \<and>
      caps = captures r taken @ caps'"
  then obtain taken mid caps' where *: "(taken, mid) \<in> set (step r s)" "(caps', rest) \<in> set (run rs mid)"
    "caps = captures r taken @ caps'"
    by blast
  then show "(caps, rest) \<in> set (run (r # rs) s)"
    by (auto intro!: bexI [OF _ *(1)] image_eqI [OF _ *(2)])
qed auto

lemma match_frontD: "match_front rs s = Some caps \<Longrightarrow> \<exists>rest. (caps, rest) \<in> set (run rs s)"
  by (auto simp: match_front_def split: list.splits)

lemma searchD: "search rs s = Some (before, caps, rest) \<Longrightarrow> \<exists>t. s = before @ t \<and> (caps, rest) \<in> set (run rs t)"
proof (induction s arbitrary: before)
  case Nil
  then show ?case by (subst (asm) search.simps) (auto split: list.splits)
next
  case (Cons c cs)
  show ?case
  proof (cases "run rs (c # cs)")
    case Nil
    with Cons.prems obtain b where "search rs cs = Some (b, caps, rest)" "before = c # b"
      by (subst (asm) search.simps) auto
    with Cons.IH show ?thesis by fastforce
  next
    case (Cons m ms)
    with Cons.prems show ?thesis
      by (subst (asm) search.simps) (auto split: prod.splits)
  qed
qed

lemma findAllD: "caps \<in> set (findAll rs s) \<Longrightarrow> \<exists>t rest. (caps, rest) \<in> set (run rs t)"
proof (induction rs s rule: findAll.induct)
  case (1 rs s)
  from 1(2) obtain before c rest where found: "search rs s = Some (before, c, rest)"
    by (cases "search rs s") (auto simp: findAll.simps [of rs s])
  with 1(2) have "caps = c \<or> length rest < length s \<and> caps \<in> set (findAll rs rest)"
    by (auto simp: findAll.simps [of rs s] split: if_splits)
  then show ?case
    using searchD [OF found] 1(1) [OF found refl refl] by blast
qed

lemma githubUser_login: "caps \<in> set (findAll githubUserRe url) \<Longrightarrow> list_all login_char (caps ! 0) \<and> caps ! 0 \<noteq> []"
  by (drule findAllD) (auto simp: githubUserRe_def in_run_Cons fronts1_split simp del: run.simps(2))

lemma parseMemberRow_login:
  "parseMemberRow line = Some (name, handle) \<Longrightarrow> list_all login_char handle \<and> handle \<noteq> []"
  using githubUser_login
  by (auto simp: parseMemberRow_def Let_def split: option.splits if_splits dest!: last_in_set)

definition parsing_ok :: "guild \<Rightarrow> parsing \<Rightarrow> bool" where
  "parsing_ok s st \<longleftrightarrow>
     (pa_team st \<noteq> [] \<longrightarrow> (\<exists>section. map_of (pa_seen st) section = Some True \<and>
        map_of (pg_sections s) section = Some (pa_team st))) \<and>
     (\<forall>m\<in>set (pa_rows st). ms_Source m = NameProtocolGuild \<and> ms_Org m = [] \<and>
        ms_Handle m \<noteq> [] \<and> list_all login_char (ms_Handle m) \<and> ms_Team m \<noteq> [] \<and>
        (\<exists>section. map_of (pa_seen st) section = Some True \<and> map_of (pg_sections s) section = Some (ms_Team m)))"

lemma parsing_okI:
  assumes "parsing_ok s st" and "\<And>section. map_of (pa_seen st) section = Some True \<Longrightarrow> map_of (pa_seen st') section = Some True"
    and "pa_team st' \<noteq> [] \<Longrightarrow> pa_team st' = pa_team st \<or> (\<exists>section. map_of (pa_seen st') section = Some True \<and>
        map_of (pg_sections s) section = Some (pa_team st'))"
    and "\<And>m. m \<in> set (pa_rows st') \<Longrightarrow> m \<in> set (pa_rows st) \<or>
      (pa_team st \<noteq> [] \<and> (\<exists>name handle. m = guild_row (pa_team st) name handle \<and> list_all login_char handle \<and> handle \<noteq> []))"
  shows "parsing_ok s st'"
  unfolding parsing_ok_def
proof (intro conjI impI ballI)
  have team: "\<exists>section. map_of (pa_seen st') section = Some True \<and> map_of (pg_sections s) section = Some (pa_team st)"
    if "pa_team st \<noteq> []"
    using that assms(1,2) by (auto simp: parsing_ok_def)
  then show "\<exists>section. map_of (pa_seen st') section = Some True \<and> map_of (pg_sections s) section = Some (pa_team st')"
    if "pa_team st' \<noteq> []"
    using assms(3) [OF that] that by auto
  fix m
  assume "m \<in> set (pa_rows st')"
  from assms(4) [OF this]
  have "ms_Source m = NameProtocolGuild \<and> ms_Org m = [] \<and> ms_Handle m \<noteq> [] \<and> list_all login_char (ms_Handle m) \<and>
      ms_Team m \<noteq> [] \<and> (\<exists>section. map_of (pa_seen st') section = Some True \<and> map_of (pg_sections s) section = Some (ms_Team m))"
  proof
    assume "m \<in> set (pa_rows st)"
    then show ?thesis using assms(1,2) unfolding parsing_ok_def by blast
  next
    assume "pa_team st \<noteq> [] \<and> (\<exists>name handle. m = guild_row (pa_team st) name handle \<and> list_all login_char handle \<and> handle \<noteq> [])"
    then show ?thesis using team by (auto simp: guild_row_def)
  qed
  then show "ms_Source m = NameProtocolGuild" "ms_Org m = []" "ms_Handle m \<noteq> []" "list_all login_char (ms_Handle m)"
    "ms_Team m \<noteq> []" "\<exists>section. map_of (pa_seen st') section = Some True \<and> map_of (pg_sections s) section = Some (ms_Team m)"
    by simp_all
qed

lemma parse_line_rows:
  "pa_rows (parse_line s st raw) = pa_rows st \<or>
   (pa_team st \<noteq> [] \<and> (\<exists>name handle. parseMemberRow (trimSpace raw) = Some (name, handle) \<and>
      pa_rows (parse_line s st raw) = pa_rows st @ [guild_row (pa_team st) name handle]))"
  by (simp add: parse_line_def Let_def split: option.split prod.split)

lemma parse_line_team:
  "pa_team (parse_line s st raw) = pa_team st \<or> pa_team (parse_line s st raw) = [] \<or>
   (\<exists>sec. map_of (pa_seen (parse_line s st raw)) sec = Some True \<and>
      pa_team (parse_line s st raw) = team_of_section s sec)"
proof (cases "match_front teamHeaderRe (trimSpace raw)")
  case None
  then show ?thesis by (simp add: parse_line_def Let_def split: option.split prod.split)
next
  case (Some m)
  then show ?thesis by (simp add: parse_line_def Let_def gomap_simps) blast
qed

lemma parse_line_ok:
  assumes "parsing_ok s st"
  shows "parsing_ok s (parse_line s st raw)"
proof (rule parsing_okI [OF assms])
  show "map_of (pa_seen st) sec = Some True \<Longrightarrow> map_of (pa_seen (parse_line s st raw)) sec = Some True" for sec
    by (simp add: parse_line_def Let_def gomap_simps split: option.split)
  show "pa_team (parse_line s st raw) = pa_team st \<or> (\<exists>section. map_of (pa_seen (parse_line s st raw)) section = Some True \<and>
      map_of (pg_sections s) section = Some (pa_team (parse_line s st raw)))" if "pa_team (parse_line s st raw) \<noteq> []"
    using parse_line_team [of s st raw] that
    by (elim disjE exE conjE) (simp_all, metis team_of_section_def option.case_eq_if option.collapse)
  show "m \<in> set (pa_rows st) \<or> (pa_team st \<noteq> [] \<and> (\<exists>name handle. m = guild_row (pa_team st) name handle \<and>
      list_all login_char handle \<and> handle \<noteq> []))" if "m \<in> set (pa_rows (parse_line s st raw))" for m
    using parse_line_rows [of s st raw] that
    by (elim disjE exE conjE) (simp_all, metis parseMemberRow_login)
qed

lemma parse_lines_ok: "parsing_ok s st \<Longrightarrow> parsing_ok s (foldl (parse_line s) st lines)"
  by (induction lines arbitrary: st) (simp_all add: parse_line_ok)

lemma parse_ok:
  assumes "parse s doc = (rows, seen)" and "m \<in> set rows"
  shows "ms_Source m = NameProtocolGuild \<and> ms_Org m = [] \<and> ms_Handle m \<noteq> [] \<and> list_all login_char (ms_Handle m) \<and>
    ms_Team m \<noteq> [] \<and> (\<exists>section. map_of seen section = Some True \<and> map_of (pg_sections s) section = Some (ms_Team m))"
proof -
  let ?start = "\<lparr>pa_rows = [], pa_seen = [], pa_team = []\<rparr>"
  have "parsing_ok s ?start" by (simp add: parsing_ok_def)
  then have ok: "parsing_ok s (foldl (parse_line s) ?start (split_on newline doc))"
    by (rule parse_lines_ok)
  show ?thesis
    using ok assms unfolding parsing_ok_def parse_def Let_def by auto
qed

lemma Guild_Fetch_rows:
  "Guild_Fetch http s = (Inr rows, s') \<Longrightarrow> \<exists>code body seen. http (pg_url s) = Response code body None \<and>
     parse s body = (rows, seen)"
  by (auto simp: Guild_Fetch_def Let_def split: http_answer.splits option.splits prod.splits if_splits)

interpretation protocol_guild: membership_source NameProtocolGuild "\<lambda>(http, s). fst (Guild_Fetch http s)"
proof unfold_locales
  fix env rows m
  assume fetched: "(case env of (http, s) \<Rightarrow> fst (Guild_Fetch http s)) = Inr rows" and m: "m \<in> set rows"
  obtain http s where env: "env = (http, s)" by (cases env)
  obtain s' where "Guild_Fetch http s = (Inr rows, s')"
    using fetched by (cases "Guild_Fetch http s") (auto simp: env)
  then obtain body seen where "parse s body = (rows, seen)"
    using Guild_Fetch_rows by blast
  from parse_ok [OF this m] show "well_formed_row NameProtocolGuild m"
    by (simp add: well_formed_row_def)
qed

end
