(* ===== verification/Program.thy ===== *)
theory Program
  imports ClusterProps ApiProps Manual ProtocolGuild
begin

text \<open>
  \<open>cmd/coredevs/main.go\<close>: the sources built from the configuration and what the syncer
  observes of them, the wiring of a standalone or writer pod (\<open>startSyncing\<close>) and of a reader
  pod (\<open>startReader\<close>), and the handler each of them serves.
\<close>

section \<open>Sources\<close>

datatype source = Manual_source manual_source | Guild_source guild | Org_source org_source

fun Source_Name :: "source \<Rightarrow> string" where
  "Source_Name (Manual_source _) = NameManual"
| "Source_Name (Guild_source _) = NameProtocolGuild"
| "Source_Name (Org_source _) = NameGitHubOrg"

text \<open>
  What the upstream systems answer during one sync, with the clock before and after. A listing of
  an organisation that never ends leaves the sync without a result.
\<close>

record world =
  wd_http :: upstream
  wd_github :: github
  wd_started :: time
  wd_finished :: time

definition fetched_from :: "world \<Rightarrow> string \<Rightarrow> error + membership list \<Rightarrow> string list \<Rightarrow> fetched" where
  "fetched_from w name r warnings =
     \<lparr>fe_Name = name, fe_Result = r, fe_Warnings = warnings, fe_started = wd_started w, fe_finished = wd_finished w\<rparr>"

text \<open>\<open>sourceWarnings\<close>: only the Protocol Guild source is a \<open>Reporter\<close>.\<close>

fun sourceWarnings :: "source \<Rightarrow> string list" where
  "sourceWarnings (Guild_source s) = Guild_Warnings s"
| "sourceWarnings (Manual_source _) = []"
| "sourceWarnings (Org_source _) = []"

fun observe :: "world \<Rightarrow> source \<Rightarrow> (fetched \<times> source) option" where
  "observe w (Manual_source s) = Some (fetched_from w NameManual (Manual_Fetch s) [], Manual_source s)"
| "observe w (Guild_source s) =
     (case Guild_Fetch (wd_http w) s of
        (r, s') \<Rightarrow> Some (fetched_from w NameProtocolGuild r (sourceWarnings (Guild_source s')), Guild_source s'))"
| "observe w (Org_source s) =
     map_option (\<lambda>r. (fetched_from w NameGitHubOrg r [], Org_source s)) (Org_Fetch s (wd_github w))"

definition observe_all :: "world \<Rightarrow> source list \<Rightarrow> (fetched \<times> source) list option" where
  "observe_all w srcs = all_some (map (observe w) srcs)"

definition buildSources :: "(string \<Rightarrow> string) \<Rightarrow> config \<Rightarrow> source list \<times> org_client option" where
  "buildSources getenv cfg =
     (let manual = ManualMembers cfg;
          pg = sc_ProtocolGuild (cf_Sources cfg);
          gh = sc_GitHubOrg (cf_Sources cfg);
          srcs = (if manual \<noteq> [] then [Manual_source (Manual_New manual)] else []);
          srcs = (if gc_Enabled pg
                  then srcs @ [Guild_source (Guild_New (gc_URL pg) (SectionTeams cfg) (gc_MaxMissingSections pg))]
                  else srcs)
      in if oc_Enabled gh then
           let client = NewClient (oc_BaseURL gh) (getenv (oc_TokenEnv gh))
           in (srcs @ [Org_source (NewSource client (OrgTeams cfg))], Some client)
         else (srcs, None))"

definition floors_of :: "config \<Rightarrow> (string \<times> floor) list" where
  "floors_of cfg =
     [(NameProtocolGuild, \<lparr>fl_MinMembers = gc_MinMembers (sc_ProtocolGuild (cf_Sources cfg)),
                           fl_MinTeams = gc_MinTeams (sc_ProtocolGuild (cf_Sources cfg))\<rparr>),
      (NameGitHubOrg, \<lparr>fl_MinMembers = oc_MinMembers (sc_GitHubOrg (cf_Sources cfg)),
                       fl_MinTeams = oc_MinTeams (sc_GitHubOrg (cf_Sources cfg))\<rparr>)]"

section \<open>The key cache\<close>

text \<open>The handles whose keys are wanted, read from the live index.\<close>

definition handlesFn :: "store \<Rightarrow> string list" where
  "handlesFn st = (case Store_Get st of None \<Rightarrow> [] | Some idx \<Rightarrow> map us_Handle (Users idx))"

definition buildKeyCache :: "config \<Rightarrow> cache option" where
  "buildKeyCache cfg =
     (let k = cf_Keys cfg
      in if \<not> kf_Enabled k then None
         else Some (Cache_New
           \<lparr>kc_Enabled = kf_Enabled k, kc_BaseURL = kf_BaseURL k, kc_RefreshInterval = kf_RefreshInterval k,
            kc_MaxRequestsPerSecond = kf_MaxRequestsPerSecond k, kc_WarmTimeout = kf_WarmTimeout k,
            kc_CacheDir = kf_CacheDir k\<rparr>))"

section \<open>A standalone or writer pod\<close>

text \<open>
  What the start of a pod observes: the environment variables, the database, the upstream
  systems, the disk and the clocks.
\<close>

record boot =
  bt_getenv :: "string \<Rightarrow> string"
  bt_dsn :: "string \<Rightarrow> error option"      \<comment> \<open>parsing the connection string\<close>
  bt_connect :: "error option"
  bt_schema :: pg_answer
  bt_load :: pg_answer                  \<comment> \<open>reading the published snapshot\<close>
  bt_snapshot :: "error option"          \<comment> \<open>reading the snapshot file\<close>
  bt_world :: world
  bt_synced :: time
  bt_disk :: write_env
  bt_started :: time
  bt_entries :: read_env                \<comment> \<open>reading the key files\<close>
  bt_publish :: publish_env

record pod =
  pd_syncer :: syncer
  pd_sources :: "source list"
  pd_keys :: "cache option"
  pd_orgs :: "org_client option"
  pd_fs :: fs

definition is_writer :: "config \<Rightarrow> bool" where
  "is_writer cfg \<longleftrightarrow> cc_Role (cf_Cluster cfg) = RoleWriter"

text \<open>
  Up to the first sync: the connection of a writer, and the syncer it seeds from the published
  snapshot.
\<close>

definition connect_writer :: "config \<Rightarrow> boot \<Rightarrow> db \<Rightarrow> syncer \<Rightarrow> (error + syncer) \<times> db" where
  "connect_writer cfg b db s =
     (if \<not> is_writer cfg then (Inr s, db)
      else case Pg_New (bt_dsn b (DSN (bt_getenv b) (cf_Cluster cfg))) (bt_connect b) (bt_schema b) db of
          (Some e, db') \<Rightarrow> (Inl e, db')
        | (None, db') \<Rightarrow> (Inr (Seed (loadPublishedIndex (bt_load b) db') s), db'))"

definition new_syncer :: "config \<Rightarrow> syncer" where
  "new_syncer cfg = New NewStore (cf_SyncInterval cfg) (cf_SnapshotPath cfg) (floors_of cfg) (ExcludedHandles cfg)"

text \<open>
  \<open>startSyncing\<close>, with the database it leaves: \<open>None\<close> when the first sync does not end, an
  error when the database cannot be reached. The publisher of a writer publishes once at the end; here before the walker
  of the key cache, which starts in the background, has fetched anything. The first sync merges
  the sources in the order they are built in, one of its schedules.
\<close>

definition startSyncing :: "config \<Rightarrow> boot \<Rightarrow> db \<times> fs \<Rightarrow> ((error + pod) \<times> db) option" where
  "startSyncing cfg b state =
     (case state of (db, fs) \<Rightarrow>
      case buildSources (bt_getenv b) cfg of (srcs, client) \<Rightarrow>
      case connect_writer cfg b db (new_syncer cfg) of
        (Inl e, db) \<Rightarrow> Some (Inl e, db)
      | (Inr s, db) \<Rightarrow>
          case observe_all (bt_world b) srcs of
            None \<Rightarrow> None
          | Some observed \<Rightarrow>
              case Start (bt_snapshot b) (bt_synced b) (bt_disk b) (map fst observed) s fs of
                (_, s, states) \<Rightarrow>
                  let fs = final_state fs states;
                      kc = map_option (Cache_Start (bt_started b) (bt_entries b) fs) (buildKeyCache cfg);
                      db = (if is_writer cfg then publish (bt_publish b) (sy_store s) kc (Statuses s) db else db)
                  in Some (Inr \<lparr>pd_syncer = s, pd_sources = map snd observed, pd_keys = kc, pd_orgs = client,
                                pd_fs = fs\<rparr>, db))"

text \<open>A disabled cache or client is a nil interface for the API.\<close>

definition keyResolver :: "cache option \<Rightarrow> provider option" where
  [simp]: "keyResolver c = map_option Live c"

definition orgResolver :: "org_client option \<Rightarrow> org_client option" where
  [simp]: "orgResolver c = c"

definition pod_handler :: "config \<Rightarrow> pod \<Rightarrow> handler" where
  "pod_handler cfg p =
     API_New cfg (sy_store (pd_syncer p)) (Some (Statuses (pd_syncer p))) (orgResolver (pd_orgs p)) (keyResolver (pd_keys p))"

section \<open>A reader pod\<close>

definition startReader :: "config \<Rightarrow> boot \<Rightarrow> pg_answer \<Rightarrow> db \<Rightarrow> (error + poller) \<times> db" where
  "startReader cfg b generation_ans db =
     (case Pg_New (bt_dsn b (DSN (bt_getenv b) (cf_Cluster cfg))) (bt_connect b) (bt_schema b) db of
        (Some e, db') \<Rightarrow> (Inl e, db')
      | (None, db') \<Rightarrow> (Inr (snd (Poller_load generation_ans db' (bt_load b) db' newPoller)), db'))"

definition reader_handler :: "config \<Rightarrow> poller \<Rightarrow> handler" where
  "reader_handler cfg p =
     API_New cfg (po_index p) (po_statuses p) None
       (if kf_Enabled (cf_Keys cfg) then Some (Published (po_keys p)) else None)"

section \<open>The program\<close>

text \<open>
  \<open>run\<close> up to the choice of the role: the configuration it goes on with. The command-line
  flag replaces the role, and the configuration is validated again.
\<close>

datatype run_error = Load_error config_load_error | Invalid_role config_error

definition effective_config ::
    "(string \<Rightarrow> error + 'data) \<Rightarrow> ('data \<Rightarrow> config \<Rightarrow> error + config) \<Rightarrow> string \<Rightarrow> string \<Rightarrow> run_error + config" where
  "effective_config read_file unmarshal path role =
     (case Load read_file unmarshal path of
        Inl e \<Rightarrow> Inl (Load_error e)
      | Inr cfg \<Rightarrow>
          if role = [] then Inr cfg
          else
            let cfg = cfg\<lparr>cf_Cluster := (cf_Cluster cfg)\<lparr>cc_Role := role\<rparr>\<rparr>
            in case Validate cfg of Some e \<Rightarrow> Inl (Invalid_role e) | None \<Rightarrow> Inr cfg)"

text \<open>
  The choice of the role: a reader loads what the database holds, every other role syncs. The
  handler that the HTTP server of the process is given comes from what was started.
\<close>

datatype process = Reading poller | Syncing pod

definition start_role ::
    "config \<Rightarrow> boot \<Rightarrow> pg_answer \<Rightarrow> db \<times> fs \<Rightarrow> ((error + process) \<times> db) option" where
  "start_role cfg b generation_ans state =
     (if cc_Role (cf_Cluster cfg) = RoleReader then
        (case startReader cfg b generation_ans (fst state) of (r, db) \<Rightarrow> Some (map_sum id Reading r, db))
      else map_option (\<lambda>(r, db). (map_sum id Syncing r, db)) (startSyncing cfg b state))"

fun process_handler :: "config \<Rightarrow> process \<Rightarrow> handler" where
  "process_handler cfg (Reading p) = reader_handler cfg p"
| "process_handler cfg (Syncing p) = pod_handler cfg p"

end
