(* ===== verification/ProgramProps.thy ===== *)
theory ProgramProps
  imports Program
begin

text \<open>
  Properties of the pods together: a reader that has loaded a snapshot answers as the writer that
  published it, and what a restart of the writer does to the published snapshot.
\<close>

section \<open>Reader and writer answer alike\<close>

text \<open>
  The endpoints whose answer is in the snapshot. \<open>/sources\<close> reports on the key cache of the pod
  itself, and the handle lookup shows a casing that depends on the order of a map.
\<close>

fun from_snapshot :: "(string \<Rightarrow> entry option) \<Rightarrow> endpoint_ref \<Rightarrow> bool" where
  "from_snapshot cached (Handle_keys handle) = (cached handle \<noteq> None)"
| "from_snapshot cached (Handle _) = False"
| "from_snapshot cached (Org_members _) = False"
| "from_snapshot cached Sources = False"
| "from_snapshot cached Readyz = False"
| "from_snapshot cached Metrics_page = False"
| "from_snapshot cached _ = True"

lemma API_New_simps [simp]:
  "hd_cfg (API_New cfg st sts orgs kp) = cfg" "hd_store (API_New cfg st sts orgs kp) = st"
  "hd_statuses (API_New cfg st sts orgs kp) = sts" "hd_orgs (API_New cfg st sts orgs kp) = orgs"
  "hd_keys (API_New cfg st sts orgs kp) = kp"
  by (simp_all add: API_New_def)

lemma norm_queries:
  assumes "index_wf idx"
  shows "Members (norm_index idx) slug src = Members idx slug src" and "Users (norm_index idx) = Users idx"
    and "enc_index (norm_index idx) = enc_index idx" and "ix_GeneratedAt (norm_index idx) = ix_GeneratedAt idx"
proof -
  have eq: "index_wf (norm_index idx)" "index_eq (norm_index idx) idx"
    using assms by (auto intro: norm_index_wf norm_index_eq)
  show "Members (norm_index idx) slug src = Members idx slug src"
    using eq assms by (intro index_eq_Members)
  show "Users (norm_index idx) = Users idx"
    using eq assms by (intro index_eq_Users)
  show "enc_index (norm_index idx) = enc_index idx"
    by (rule index_codec.enc_norm) simp
  show "ix_GeneratedAt (norm_index idx) = ix_GeneratedAt idx"
    by (simp add: norm_index_def)
qed

lemma team_summary_norm: "index_wf idx \<Longrightarrow> team_summary (norm_index idx) = team_summary idx"
  by (auto simp: team_summary_def fun_eq_iff norm_queries)

text \<open>Two handlers with the same content: the answers that come from the index and the keys.\<close>

lemma same_answers:
  assumes "hd_cfg h = hd_cfg g" and "Store_Get (hd_store g) = Some idx"
    and "Store_Get (hd_store h) = Some (norm_index idx)" and "index_wf idx"
    and "rel_option (\<lambda>p q. Keys_Get p = Keys_Get q) (hd_keys h) (hd_keys g)"
    and "from_snapshot (\<lambda>x. Option.bind (hd_keys g) (\<lambda>kp. Keys_Get kp x)) e"
  shows "fst (serve env q e (h, fs)) = fst (serve env q e (g, fs'))"
proof -
  have keys: "keys_of_member p = keys_of_member p'" if "Keys_Get p = Keys_Get p'" for p p'
    by (simp add: keys_of_member_def fun_eq_iff that)
  show ?thesis
  proof (cases e)
    case Teams
    then show ?thesis
      using assms(1-4) by (simp add: serve_def handleTeams_def norm_queries team_summary_norm Let_def)
  next
    case All_users
    then show ?thesis
      using assms(1-4)
      by (cases "normalizeSource (query_get q ''source'')")
        (simp_all add: serve_def handleAllUsers_def norm_queries userInKind_def Let_def)
  next
    case (Team_users team)
    then show ?thesis
      using assms(1-4)
      by (cases "normalizeSource (query_get q ''source'')") (simp_all add: serve_def handleUsers_def norm_queries Let_def)
  next
    case (Team_keys team)
    show ?thesis
    proof (cases "hd_keys g")
      case None
      with assms(5) have "hd_keys h = None" by simp
      with None show ?thesis by (simp add: Team_keys serve_def handleTeamKeys_def)
    next
      case (Some kp)
      with assms(5) obtain kp' where kp': "hd_keys h = Some kp'" "Keys_Get kp' = Keys_Get kp"
        by (auto simp: option_rel_Some2)
      from keys [OF kp'(2)] kp'(1) Some assms(1-4) show ?thesis
        by (simp add: Team_keys serve_def handleTeamKeys_def norm_queries Let_def)
    qed
  next
    case (Handle_keys handle)
    then show ?thesis
      using assms(5,6)
      by (cases "hd_keys h"; cases "hd_keys g")
        (auto simp: serve_def handleHandleKeys_def)
  next
    case Export
    then show ?thesis
      using assms(2-4) by (simp add: serve_def handleExport_def norm_queries)
  qed (use assms(6) in \<open>simp_all add: serve_def\<close>)
qed

text \<open>A reader that serves the snapshot a writer would publish now answers as that writer.\<close>

lemma reader_answers_like_the_writer:
  assumes "Store_Get (sy_store (pd_syncer p)) = Some idx" and "index_wf idx"
    and "serves q (live_snapshot env idx (pd_keys p) (Statuses (pd_syncer p)))"
    and "kf_Enabled (cf_Keys cfg) \<longleftrightarrow> pd_keys p \<noteq> None"
    and "\<And>c. pd_keys p = Some c \<Longrightarrow> gomap (ca_entries c)"
    and "from_snapshot (\<lambda>x. Option.bind (pd_keys p) (\<lambda>c. Cache_Get c x)) e"
  shows "fst (serve w query e (reader_handler cfg q, fs)) = fst (serve w query e (pod_handler cfg p, fs'))"
proof (rule same_answers)
  show "Store_Get (hd_store (pod_handler cfg p)) = Some idx"
    using assms(1) by (simp add: pod_handler_def)
  show "Store_Get (hd_store (reader_handler cfg q)) = Some (norm_index idx)"
    using assms(3) by (simp add: reader_handler_def serves_defs live_snapshot_def)
  show "from_snapshot (\<lambda>x. Option.bind (hd_keys (pod_handler cfg p)) (\<lambda>kp. Keys_Get kp x)) e"
    using assms(6) by (cases "pd_keys p") (simp_all add: pod_handler_def)
  have "Reader_Get (po_keys q) = Cache_Get c" if c: "pd_keys p = Some c" for c
    using assms(3) assms(5) [OF c] c
    by (simp add: fun_eq_iff serves_defs live_snapshot_def Reader_Get_def Cache_Get_def Cache_Snapshot_def
        map_of_sorted_map option.map_ident)
  then show "rel_option (\<lambda>p q. Keys_Get p = Keys_Get q) (hd_keys (reader_handler cfg q)) (hd_keys (pod_handler cfg p))"
    using assms(4) by (auto simp: reader_handler_def pod_handler_def fun_eq_iff)
qed (use assms(2) in \<open>simp_all add: reader_handler_def pod_handler_def\<close>)

section \<open>The start of a writer\<close>

text \<open>Every source is built at most once, and is observed under its own name with rows of its own.\<close>

lemma buildSources_names: "distinct (map Source_Name (fst (buildSources getenv cfg)))"
  by (simp add: buildSources_def Let_def source_names)

lemma observe_name: "observe w src = Some (f, src') \<Longrightarrow> fe_Name f = Source_Name src \<and> Source_Name src' = Source_Name src"
  by (cases src) (auto simp: fetched_from_def split: prod.splits)

lemma observe_rows:
  assumes "observe w src = Some (f, src')" and "fe_Result f = Inr rows"
  shows "ms_Source ` set rows \<subseteq> {fe_Name f}"
proof (cases src)
  case (Manual_source s)
  then have "Manual_Fetch s = Inr rows" "fe_Name f = NameManual"
    using assms by (auto simp: fetched_from_def)
  then show ?thesis using manual.fetch_source_name by metis
next
  case (Guild_source s)
  then have "fst (Guild_Fetch (wd_http w) s) = Inr rows" "fe_Name f = NameProtocolGuild"
    using assms by (auto simp: fetched_from_def split: prod.splits)
  then show ?thesis using protocol_guild.fetch_source_name [of "(wd_http w, s)"] by simp
next
  case (Org_source s)
  then have "Org_Fetch s (wd_github w) = Some (Inr rows)" "fe_Name f = NameGitHubOrg"
    using assms by (auto simp: fetched_from_def)
  then show ?thesis using github_org.fetch_source_name [of "(s, wd_github w)"] by (simp add: Org_result_def)
qed

lemma all_some_nth: "all_some xs = Some ys \<Longrightarrow> xs = map Some ys"
  by (induction xs arbitrary: ys rule: all_some.induct) auto

lemma observe_all_Some:
  assumes "observe_all w srcs = Some observed"
  shows "map fe_Name (map fst observed) = map Source_Name srcs"
    and "(f, src') \<in> set observed \<Longrightarrow> \<exists>src\<in>set srcs. observe w src = Some (f, src')"
    and "map Source_Name (map snd observed) = map Source_Name srcs"
proof -
  have eq: "map (observe w) srcs = map Some observed"
    using all_some_nth assms by (simp add: observe_all_def)
  then have "map fe_Name (map fst observed) = map Source_Name srcs \<and>
      map Source_Name (map snd observed) = map Source_Name srcs"
  proof (induction srcs arbitrary: observed)
    case (Cons src srcs)
    then obtain x xs where x: "observed = x # xs" "observe w src = Some (fst x, snd x)" "map (observe w) srcs = map Some xs"
      by (cases observed) auto
    with observe_name [OF x(2)] Cons.IH [OF x(3)] show ?case by simp
  qed simp
  then show "map fe_Name (map fst observed) = map Source_Name srcs"
    and "map Source_Name (map snd observed) = map Source_Name srcs"
    by simp_all
  show "\<exists>src\<in>set srcs. observe w src = Some (f, src')" if "(f, src') \<in> set observed"
  proof -
    have "Some (f, src') \<in> set (map (observe w) srcs)"
      unfolding eq using that by simp
    then show ?thesis by auto
  qed
qed

lemma startSyncing_pod:
  assumes "startSyncing cfg b (db, fs) = Some (Inr p, out)"
  obtains s db' observed idx states where
    "connect_writer cfg b db (new_syncer cfg) = (Inr s, db')"
    "observe_all (bt_world b) (fst (buildSources (bt_getenv b) cfg)) = Some observed"
    "distinct (map fe_Name (map fst observed))"
    "Start (bt_snapshot b) (bt_synced b) (bt_disk b) (map fst observed) s fs = (idx, pd_syncer p, states)"
    "pd_keys p = map_option (Cache_Start (bt_started b) (bt_entries b) (final_state fs states)) (buildKeyCache cfg)"
    "out = (if is_writer cfg
       then publish (bt_publish b) (sy_store (pd_syncer p)) (pd_keys p) (Statuses (pd_syncer p)) db' else db')"
proof -
  obtain srcs client where build: "buildSources (bt_getenv b) cfg = (srcs, client)"
    by (cases "buildSources (bt_getenv b) cfg")
  obtain r db' where conn: "connect_writer cfg b db (new_syncer cfg) = (r, db')"
    by (cases "connect_writer cfg b db (new_syncer cfg)")
  obtain s where r: "r = Inr s"
    using assms by (cases r) (auto simp: startSyncing_def build conn)
  obtain observed where obs: "observe_all (bt_world b) srcs = Some observed"
    using assms by (cases "observe_all (bt_world b) srcs") (auto simp: startSyncing_def build conn r)
  obtain idx t states where start: "Start (bt_snapshot b) (bt_synced b) (bt_disk b) (map fst observed) s fs = (idx, t, states)"
    by (metis prod_cases3)
  have "distinct (map fe_Name (map fst observed))"
    using observe_all_Some(1) [OF obs] buildSources_names [of "bt_getenv b" cfg] by (simp add: build)
  with assms show thesis
    using that [of s db' observed idx states]
    by (auto simp: startSyncing_def build conn r obs start Let_def)
qed

text \<open>A healthy connection, and the syncer a writer starts from.\<close>

definition connects :: "config \<Rightarrow> boot \<Rightarrow> bool" where
  "connects cfg b \<longleftrightarrow> is_writer cfg \<and> bt_dsn b (DSN (bt_getenv b) (cf_Cluster cfg)) = None \<and>
     bt_connect b = None \<and> bt_schema b = Answered"

lemma connect_writer_seeded:
  assumes "connects cfg b"
  shows "connect_writer cfg b (Table q) s = (Inr (Seed (loadPublishedIndex (bt_load b) (Table q)) s), Table q)"
  using assms by (simp add: connects_def connect_writer_def Pg_New_def Pg_ensureSchema_def Let_def)

lemma start_succeeds:
  assumes "connects cfg b" and "observe_all (bt_world b) (fst (buildSources (bt_getenv b) cfg)) = Some observed"
  shows "\<exists>p out. startSyncing cfg b (Table q, fs) = Some (Inr p, out)"
proof -
  obtain srcs client where build: "buildSources (bt_getenv b) cfg = (srcs, client)"
    by (cases "buildSources (bt_getenv b) cfg")
  obtain idx s states where "Start (bt_snapshot b) (bt_synced b) (bt_disk b) (map fst observed)
      (Seed (loadPublishedIndex (bt_load b) (Table q)) (new_syncer cfg)) fs = (idx, s, states)"
    by (metis prod_cases3)
  with assms(2) show ?thesis
    by (simp add: startSyncing_def build connect_writer_seeded [OF assms(1)] Let_def)
qed

lemma Seed_published:
  assumes "row_of snap r" and "sn_Index snap = Some idx" and "ix_Teams idx \<noteq> []"
  shows "Seed (loadPublishedIndex Answered (Table (Some r))) s = restored idx s"
proof -
  have "pr_Data r = Doc (enc_snapshot snap)"
    using assms(1) by (simp add: row_of_def)
  then have "loadPublishedIndex Answered (Table (Some r)) = Some (norm_index idx)"
    using assms(2) by (simp add: loadPublishedIndex_def answered_queries norm_snapshot_def)
  moreover have "ix_Teams (norm_index idx) \<noteq> []"
    using assms(3) by (simp add: norm_index_def sorted_map_def) (metis length_0_conv length_sort)
  ultimately show ?thesis
    by (simp add: Seed_def restored_def)
qed

lemma find_member_teams: "find_member i slug key = Some m \<Longrightarrow> ix_Teams i \<noteq> []"
  by (auto simp: find_member_def)

lemma Sync_sets_store:
  "distinct (map fe_Name srcs) \<Longrightarrow> Store_Get (sy_store (fst (snd (Sync now env srcs s fs)))) \<noteq> None"
  by (auto simp: Sync_store)

lemma publish_healthy:
  assumes "Store_Get st = Some i" and "pv_marshal env = None" and "pv_answer env = Answered"
  shows "\<exists>r. publish env st kc statuses (Table q) = Table (Some r) \<and> row_of (live_snapshot env i kc statuses) r"
  using assms by (simp add: publish_def publish_snapshot_def live_snapshot_def Marshal_def Pg_Save_def row_of_def)

lemma seeded_own_rows: "own_rows (recover e (Seed idx (new_syncer cfg)) fs)"
proof -
  have "own_rows (new_syncer cfg)"
    by (simp add: own_rows_def new_syncer_def New_def lastGoodFor_def)
  then have "own_rows (Seed idx (new_syncer cfg))"
    by (auto simp: Seed_def intro: restore_own_rows store_own_rows split: option.split)
  then show ?thesis
    by (auto simp: recover_def intro: restore_own_rows store_own_rows split: sum.split option.split)
qed

text \<open>
  C33. When the writer restarts with an empty disk and cannot read the published snapshot
  while a source fails, it publishes an index without anything of that source over the
  good snapshot.
\<close>

theorem unread_snapshot_is_overwritten:
  assumes "connects cfg b" and "loadPublishedIndex (bt_load b) (Table q) = None"
    and "LoadSnapshot (bt_snapshot b) (cf_SnapshotPath cfg) fs = Inr None"
    and "observe_all (bt_world b) (fst (buildSources (bt_getenv b) cfg)) = Some observed"
    and "(f, f') \<in> set observed" and "fe_Result f = Inl err"
    and "pv_marshal (bt_publish b) = None" and "pv_answer (bt_publish b) = Answered"
    and "startSyncing cfg b (Table q, fs) = Some (Inr p, out)"
  shows "\<exists>i r. out = Table (Some r) \<and>
    row_of (live_snapshot (bt_publish b) i (pd_keys p) (Statuses (pd_syncer p))) r \<and>
    (\<forall>slug key n. find_member i slug key = Some n \<longrightarrow> fe_Name f \<notin> set (mb_Sources n))"
proof (rule startSyncing_pod [OF assms(9)])
  fix s db' obs idx states
  assume conn: "connect_writer cfg b (Table q) (new_syncer cfg) = (Inr s, db')"
    and obs: "observe_all (bt_world b) (fst (buildSources (bt_getenv b) cfg)) = Some obs"
    and names: "distinct (map fe_Name (map fst obs))"
    and start: "Start (bt_snapshot b) (bt_synced b) (bt_disk b) (map fst obs) s fs = (idx, pd_syncer p, states)"
    and db: "out = (if is_writer cfg
       then publish (bt_publish b) (sy_store (pd_syncer p)) (pd_keys p) (Statuses (pd_syncer p)) db' else db')"
  have s: "s = new_syncer cfg" "db' = Table q"
    using conn connect_writer_seeded [OF assms(1), of q] by (auto simp: assms(2) Seed_def)
  then have new: "sy_snapshot s = cf_SnapshotPath cfg" "Store_Get (sy_store s) = None" "\<And>name. lastGoodFor s name = []"
    by (simp_all add: new_syncer_def New_def lastGoodFor_def)
  have sync: "Sync (bt_synced b) (bt_disk b) (map fst obs) s fs = (idx, pd_syncer p, states)"
    using start assms(3) by (simp add: Start_def new)
  let ?i = "Build (bt_synced b) (contributed s (map fst obs))"
  have i: "Store_Get (sy_store (pd_syncer p)) = Some ?i"
    using Sync_store [OF names, of "bt_synced b" "bt_disk b" s fs] sync new(2) by simp
  have f: "f \<in> set (map fst obs)"
    using assms(4,5) obs by force
  have own: "own_rows s"
    by (simp add: own_rows_def new)
  have rows: "own_results (map fst obs)"
    using observe_all_Some(2) [OF obs] observe_rows by (fastforce simp: own_results_def)
  have "\<not> lists (fe_Name f) slug key ?i" for slug key
  proof
    assume "lists (fe_Name f) slug key ?i"
    then obtain r where "r \<in> set (rows_for slug key (lastGoodFor s (fe_Name f)))"
      by (rule sync_lists_last_good [OF names own rows f assms(6)])
    then show False by (simp add: new rows_for_def)
  qed
  then have "\<forall>slug key n. find_member ?i slug key = Some n \<longrightarrow> fe_Name f \<notin> set (mb_Sources n)"
    by (fastforce simp: lists_def split: option.splits)
  moreover obtain r where "publish (bt_publish b) (sy_store (pd_syncer p)) (pd_keys p) (Statuses (pd_syncer p)) (Table q) = Table (Some r)"
    "row_of (live_snapshot (bt_publish b) ?i (pd_keys p) (Statuses (pd_syncer p))) r"
    using publish_healthy [OF i assms(7,8)] by blast
  moreover have "is_writer cfg"
    using assms(1) by (simp add: connects_def)
  ultimately show ?thesis
    unfolding db s(2) by (intro exI [of _ ?i] exI [of _ r]) simp
qed



section \<open>Sample starts\<close>

definition sample_config :: config where
  "sample_config = Default\<lparr>cf_Teams := [(''reth'', \<lparr>tc_DisplayName = [], tc_Kind = ''client'', tc_Layer = ''el'',
     tc_ProtocolGuildSections = [''Reth''], tc_GitHubOrgs = [], tc_Members = []\<rparr>)],
     cf_Exclude := [''Eve''], cf_Keys := (cf_Keys Default)\<lparr>kf_CacheDir := ''/keys''\<rparr>,
     cf_Cluster := (cf_Cluster Default)\<lparr>cc_Role := RoleWriter\<rparr>,
     cf_Sources := (cf_Sources Default)\<lparr>sc_GitHubOrg := (sc_GitHubOrg (cf_Sources Default))\<lparr>oc_Enabled := False\<rparr>\<rparr>\<rparr>"

definition sample_guild :: guild where
  "sample_guild = Guild_New (gc_URL (sc_ProtocolGuild (cf_Sources Default))) [(''Reth'', ''reth'')] 0"

text \<open>There are no key files, the document cannot be fetched, and the database answers as given.\<close>

definition no_entries :: read_env where
  "no_entries = \<lparr>re_dir = Dir_not_exist, re_file = (\<lambda>_. None)\<rparr>"

definition sample_boot :: "pg_answer \<Rightarrow> boot" where
  "sample_boot load =
     \<lparr>bt_getenv = (\<lambda>_. []), bt_dsn = (\<lambda>_. None), bt_connect = None, bt_schema = Answered, bt_load = load,
      bt_snapshot = None,
      bt_world = \<lparr>wd_http = (\<lambda>_. No_response ''timeout''), wd_github = two_members, wd_started = 10, wd_finished = 11\<rparr>,
      bt_synced = 12, bt_disk = healthy_disk, bt_started = 13, bt_entries = no_entries, bt_publish = sample_publication\<rparr>"

definition guild_unreachable :: fetched where
  "guild_unreachable = fetched_from (bt_world (sample_boot Answered)) NameProtocolGuild
     (Inl ''fetch membership document: timeout'') []"

lemma sample_sources: "buildSources getenv sample_config = ([Guild_source sample_guild], None)"
  by (simp add: buildSources_def sample_config_def ManualMembers_def SectionTeams_def sample_guild_def Default_def Let_def)

lemma sample_observed:
  "observe_all (bt_world (sample_boot load)) (fst (buildSources getenv sample_config)) =
     Some [(guild_unreachable, Guild_source sample_guild)]"
  by (simp add: sample_sources observe_all_def Guild_Fetch_def sample_boot_def guild_unreachable_def
      fetched_from_def Guild_Warnings_def sample_guild_def Guild_New_def)

lemma sample_connects: "connects sample_config (sample_boot load)"
  by (simp add: connects_def is_writer_def sample_config_def sample_boot_def)

lemma sample_starts: "\<exists>p out. startSyncing sample_config (sample_boot load) (Table q, []) = Some (Inr p, out)"
  by (rule start_succeeds [OF sample_connects sample_observed])

definition good_snapshot :: snapshot where
  "good_snapshot = live_snapshot sample_publication (Build 1 [bob_row]) None []"

definition good_row :: row where
  "good_row = \<lparr>pr_Generation = 7, pr_Data = Doc (enc_snapshot good_snapshot), pr_UpdatedAt = 8\<rparr>"

lemma good_row_of: "row_of good_snapshot good_row" "sn_Index good_snapshot = Some (Build 1 [bob_row])"
  by (simp_all add: row_of_def good_row_def good_snapshot_def live_snapshot_def sample_publication_def)

lemma bob_indexed: "find_member (Build 1 [bob_row]) ''reth'' ''bob'' =
    Some \<lparr>mb_Handle = ''bob'', mb_Name = [], mb_Sources = [''protocol-guild''], mb_Orgs = []\<rparr>"
  by code_simp

lemma sample_excludes: "ExcludedHandles sample_config = [(toLower ''Eve'', True)]"
  by (simp add: ExcludedHandles_def sample_config_def Default_def)

lemma bob_kept: "map_of (ExcludedHandles sample_config) ''bob'' \<noteq> Some True"
  unfolding sample_excludes by code_simp

lemma sample_no_file: "LoadSnapshot e (cf_SnapshotPath sample_config) fs = Inr None"
  by (simp add: LoadSnapshot_def sample_config_def Default_def)

lemma guild_unreachable_simps: "fe_Name guild_unreachable = ''protocol-guild''"
    "fe_Result guild_unreachable = Inl ''fetch membership document: timeout''"
  by (simp_all add: guild_unreachable_def fetched_from_def NameProtocolGuild_def)

theorem unread_snapshot_is_overwritten_sample:
  "\<exists>p out r. startSyncing sample_config (sample_boot (Refused ''timeout'')) (Table (Some good_row), []) = Some (Inr p, out) \<and>
     out = Table (Some r) \<and>
     (\<exists>i. row_of (live_snapshot sample_publication i (pd_keys p) (Statuses (pd_syncer p))) r \<and>
        find_member i ''reth'' ''bob'' \<noteq> Some \<lparr>mb_Handle = ''bob'', mb_Name = [], mb_Sources = [''protocol-guild''], mb_Orgs = []\<rparr>)"
proof -
  let ?b = "sample_boot (Refused ''timeout'')"
  obtain p out where p: "startSyncing sample_config ?b (Table (Some good_row), []) = Some (Inr p, out)"
    using sample_starts by blast
  have b: "bt_publish ?b = sample_publication" "loadPublishedIndex (bt_load ?b) (Table (Some good_row)) = None"
    by (simp_all add: sample_boot_def loadPublishedIndex_def Pg_Load_def query_row_def)
  have healthy: "pv_marshal (bt_publish ?b) = None" "pv_answer (bt_publish ?b) = Answered"
    by (simp_all add: b sample_publication_def)
  from unread_snapshot_is_overwritten [OF sample_connects b(2) sample_no_file sample_observed _ guild_unreachable_simps(2) healthy p]
  show ?thesis
    using p by (fastforce simp: b guild_unreachable_simps)
qed


definition stale_config :: config where
  "stale_config = sample_config\<lparr>cf_SnapshotPath := ''/data/snapshot.json''\<rparr>"

definition carol_row :: membership where
  "carol_row = bob_row\<lparr>ms_Handle := ''carol''\<rparr>"


end
