(* ===== verification/Disk.thy ===== *)
theory Disk
  imports Syncer Keys
begin

text \<open>
  The disk of a pod outlives its process: what a restart may find in the snapshot file after the
  saves, the writes of key files and the removals of the run before, a crash in the middle of any of
  them included.
\<close>

section \<open>What the snapshot file holds\<close>

text \<open>A property of the index a restart would load, if the file can be loaded at all.\<close>

definition file_holds :: "(index \<Rightarrow> bool) \<Rightarrow> string \<Rightarrow> fs \<Rightarrow> bool" where
  "file_holds Q path fs \<longleftrightarrow>
     (case LoadSnapshot None path fs of Inr (Some i) \<Rightarrow> Q i | _ \<Rightarrow> True)"

text \<open>
  A key file never takes the place of the snapshot file when the path of the snapshot is not below
  the directory of the keys. Where it is, what a key file decodes to is an index without a team.
\<close>

definition below :: "string \<Rightarrow> string \<Rightarrow> bool" where
  "below dir path \<longleftrightarrow> dir \<noteq> [] \<and> starts_with (dir @ ''/'') path"

definition empty_index :: index where
  "empty_index = \<lparr>ix_GeneratedAt = zero_time, ix_Teams = []\<rparr>"

definition harmless :: "(index \<Rightarrow> bool) \<Rightarrow> string \<Rightarrow> string \<Rightarrow> bool" where
  "harmless Q dir path \<longleftrightarrow> Q empty_index \<or> \<not> below dir path"

lemma not_below_nothing [simp]: "\<not> below dir []"
  by (simp add: below_def starts_with_iff)

lemma file_holds_iff: "file_holds Q path fs \<longleftrightarrow> (\<forall>i. LoadSnapshot None path fs = Inr (Some i) \<longrightarrow> Q i)"
  by (auto simp: file_holds_def split: sum.splits option.splits)

lemma file_holds_load: "file_holds Q path fs \<Longrightarrow> LoadSnapshot e path fs = Inr (Some i) \<Longrightarrow> Q i"
  by (auto simp: file_holds_def LoadSnapshot_def split: if_splits option.splits)

lemma file_holds_no_file [simp]: "file_holds Q path []" "file_holds Q [] fs"
  by (simp_all add: file_holds_def LoadSnapshot_def)

lemma file_holds_cases:
  assumes "file_holds Q path fs"
    and "map_of s path = map_of fs path \<or> map_of s path = None \<or>
      (\<exists>d. map_of s path = Some d \<and> (\<forall>j i. d = Doc j \<longrightarrow> dec_index j = Some i \<longrightarrow> Q i))"
  shows "file_holds Q path s"
proof -
  have "LoadSnapshot None path s = LoadSnapshot None path fs" if "map_of s path = map_of fs path"
    using that by (simp add: LoadSnapshot_def)
  moreover have "Q i" if "LoadSnapshot None path s = Inr (Some i)" "map_of s path = Some d"
      "\<forall>j i. d = Doc j \<longrightarrow> dec_index j = Some i \<longrightarrow> Q i" for d i
    using that by (cases d) (auto simp: LoadSnapshot_def split: if_splits option.splits)
  moreover have "LoadSnapshot None path s = Inr None" if "map_of s path = None"
    using that by (simp add: LoadSnapshot_def)
  ultimately show ?thesis
    using assms by (auto simp: file_holds_iff)
qed

section \<open>What keeps it\<close>

lemma Save_holds:
  assumes "file_holds Q path fs" and "Q (norm_index idx)" and "s \<in> set (snd (Save env idx path fs))"
  shows "file_holds Q path s"
proof (cases "path = []")
  case False
  then have "map_of s path = map_of fs path \<or> map_of s path = Some (Doc (enc_index idx))"
    using index_file.never_partial [OF _ assms(3)] by (simp add: snapshot_file_def)
  then show ?thesis
    using assms(2) by (intro file_holds_cases [OF assms(1)]) (auto simp: index_codec.dec_enc)
qed simp

lemma dec_index_of_entry: "dec_index (enc_key_entry e) = Some empty_index"
  by (simp add: enc_key_entry_def field_def omit_if_def empty_index_def)

lemma write_temp_rename_any:
  assumes "s \<in> set (snd (write_temp_rename env target data fs))"
  shows "map_of s path = map_of fs path \<or> map_of s path = None \<or>
    (\<exists>d. map_of s path = Some d \<and> (d = data \<or> (\<exists>bytes. d = Corrupt bytes)))"
  using assms
  by (auto simp: write_temp_rename_def Let_def gomap_simps split: sum.splits option.splits if_splits)

lemma writeEntry_holds:
  assumes "file_holds Q path fs" and "harmless Q dir path"
    and s: "s \<in> set (snd (writeEntry env dir key e fs))"
  shows "file_holds Q path s"
proof -
  obtain name where dir: "dir \<noteq> []" and w: "s \<in> set (snd (write_temp_rename env (entry_path dir name) (Doc (enc_key_entry e)) fs))"
    using s by (auto simp: writeEntry_def split: if_splits option.splits)
  show ?thesis
  proof (cases "below dir path")
    case True
    then have "Q empty_index"
      using assms(2) by (simp add: harmless_def)
    with write_temp_rename_any [OF w, of path] show ?thesis
      by (intro file_holds_cases [OF assms(1)]) (auto simp: dec_index_of_entry)
  next
    case False
    then have "path \<noteq> entry_path dir name @ rest" for rest
      using dir by (auto simp: below_def starts_with_iff entry_path_def)
    from this [of "[]"] this have "map_of s path = map_of fs path"
      using write_temp_rename_frame [OF w] by (simp add: temp_name_def)
    then show ?thesis
      by (intro file_holds_cases [OF assms(1)]) simp
  qed
qed

lemma fetchOne_holds:
  assumes "Cache_fetchOne env h (c, fs) = (e, c', states)" and "file_holds Q path fs"
    and "harmless Q (kc_CacheDir (ca_cfg c)) path" and "s \<in> set (fs # states)"
  shows "file_holds Q path s"
proof (cases "s = fs")
  case True
  with assms(2) show ?thesis by simp
next
  case False
  then have "s \<in> set (snd (writeEntry (fv_disk env) (kc_CacheDir (ca_cfg c)) (toLower h) e fs))"
    using assms(4) Cache_fetchOne_entry [OF assms(1)] by (auto split: sum.splits)
  then show ?thesis
    by (rule writeEntry_holds [OF assms(2,3)])
qed

lemma final_state_in: "final_state fs states \<in> set (fs # states)"
  by (simp add: final_state_def)

lemma Refresh_holds:
  assumes "Cache_Refresh env h (c, fs) = (e, c', fs')" and "file_holds Q path fs"
    and "harmless Q (kc_CacheDir (ca_cfg c)) path"
  shows "file_holds Q path fs'"
  using assms fetchOne_holds [OF _ _ _ final_state_in] by (auto simp: Cache_Refresh_def split: prod.splits)

lemma prune_holds:
  assumes "prune rm handles (c, fs) = (c', fs')" and "file_holds Q path fs"
  shows "file_holds Q path fs'"
proof -
  have "file_holds Q path (snd (removeEntry err dir key fs))" if "file_holds Q path fs" for err dir key fs
    by (rule file_holds_cases [OF that])
      (auto simp: removeEntry_def gomap_simps split: if_splits option.splits)
  then have "file_holds Q path fs \<Longrightarrow>
      file_holds Q path (foldl (\<lambda>fs key. snd (removeEntry (rm key) dir key fs)) fs removed)" for removed dir
    by (induction removed arbitrary: fs) simp_all
  with assms show ?thesis by (auto simp: prune_def Let_def)
qed

lemma walk_step_cfg:
  "walk_step world desired x y \<Longrightarrow> ca_cfg (fst (snd y)) = ca_cfg (fst (snd x))"
  by (induction rule: walk_step.induct)
    (auto simp: prune_def Let_def Cache_Refresh_def split: prod.splits dest: Cache_fetchOne_fields(2))

lemma walk_step_holds:
  assumes "walk_step world desired x y" and "file_holds Q path (snd (snd x))"
    and "harmless Q (kc_CacheDir (ca_cfg (fst (snd x)))) path"
  shows "file_holds Q path (snd (snd y))"
  using assms
proof (induction rule: walk_step.induct)
  case (fetch_next env h c fs e c' states before todo delay)
  then show ?case using fetchOne_holds [OF _ _ _ final_state_in] by simp
next
  case (handler_refresh env h c fs e c' fs' p)
  then show ?case using Refresh_holds by simp
qed (auto intro: prune_holds)

section \<open>The end of a sync, and a start\<close>

lemma finish_sync_holds:
  assumes "finish_sync now env mg s fs = (idx, s', states)" and "file_holds Q (sy_snapshot s) fs"
    and "Q (norm_index (Build now (drop_excluded s (mg_all mg))))" and "t \<in> set (fs # states)"
  shows "file_holds Q (sy_snapshot s) t"
proof (cases "t = fs")
  case False
  then have "t \<in> set (snd (Save env (Build now (drop_excluded s (mg_all mg))) (sy_snapshot s) fs))"
    using assms(1,4) by (auto simp: finish_sync_def Let_def split: if_splits)
  then show ?thesis
    by (rule Save_holds [OF assms(2,3)])
qed (use assms(2) in simp)

lemma recover_store:
  assumes "file_holds Q (sy_snapshot s) fs" and "\<And>i. Store_Get (sy_store s) = Some i \<Longrightarrow> Q i"
    and "Store_Get (sy_store (recover e s fs)) = Some i"
  shows "Q i"
  using assms file_holds_load [OF assms(1)]
  by (auto simp: recover_def split: sum.splits option.splits)

section \<open>A snapshot file in the directory of the keys\<close>

lemma dec_entry_of_index: "dec_key_entry (enc_index i) = Some zero_entry"
  by (simp add: enc_index_def field_def zero_entry_def)

lemma removals:
  assumes "map_of fs path = None \<or> (\<exists>key\<in>set removed. \<exists>name. entryFileName key = Some name \<and> path = entry_path dir name)"
    and "dir \<noteq> []"
  shows "map_of (foldl (\<lambda>fs key. snd (removeEntry None dir key fs)) fs removed) path = None"
  using assms(1)
proof (induction removed arbitrary: fs)
  case (Cons key removed)
  have "map_of (snd (removeEntry None dir key fs)) path = None"
    if "map_of fs path = None \<or> (\<exists>name. entryFileName key = Some name \<and> path = entry_path dir name)"
    using that assms(2) by (auto simp: removeEntry_def gomap_simps split: option.split)
  with Cons show ?case by auto
qed simp

text \<open>
  Nothing keeps the snapshot file out of the directory of the keys. There a start takes it for the
  entry of a handle, and the first pass of the walker, when nobody has that handle, removes it.
\<close>

lemma snapshot_among_keys_is_pruned:
  assumes "kc_CacheDir (ca_cfg c) = dir" and "dir \<noteq> []" and "gomap fs" and "cache_loads dir fs"
    and "entryFileName key = Some name"
    and "map_of fs (entry_path dir name) = Some (Doc (enc_index i))"
    and "key \<notin> toLower ` set handles"
    and "prune (\<lambda>_. None) handles (Cache_Start now healthy_reads fs c, fs) = (c', fs')"
  shows "LoadSnapshot None (entry_path dir name) fs = Inr (Some (norm_index i)) \<and>
    LoadSnapshot None (entry_path dir name) fs' = Inr None"
proof
  have path: "entry_path dir name \<noteq> []"
    by (simp add: entry_path_def)
  then show "LoadSnapshot None (entry_path dir name) fs = Inr (Some (norm_index i))"
    using LoadSnapshot_doc assms(6) by blast
  have name: "name = key @ entryFileExt" "CHR ''/'' \<notin> set key"
    using assms(5) by (auto simp: entryFileName_def key_char_def list_all_iff less_eq_char_def split: if_splits)
  obtain out where out: "loadCache healthy_reads dir fs = Inr out"
    "map_of out key = Some zero_entry"
    by (rule loadCache_find [OF assms(3,4,2)]) (use assms(6) name in \<open>simp add: dec_entry_of_index\<close>)
  let ?c = "Cache_Start now healthy_reads fs c"
  have "out \<noteq> []"
    using out(2) by auto
  then have c: "ca_entries ?c = out" "kc_CacheDir (ca_cfg ?c) = dir"
    using out(1) assms(1) by (simp_all add: Cache_Start_def Let_def)
  let ?removed = "filter (\<lambda>key. key \<notin> set (map toLower handles)) (map fst (ca_entries ?c))"
  have "key \<in> set ?removed"
    using map_of_SomeD [OF out(2)] assms(7) by (force simp: c)
  then have "\<exists>key\<in>set ?removed. \<exists>n. entryFileName key = Some n \<and> entry_path dir name = entry_path dir n"
    using assms(5) by blast
  moreover have "fs' = foldl (\<lambda>fs key. snd (removeEntry None dir key fs)) fs ?removed"
    using assms(8) by (simp add: prune_def Let_def c(2))
  ultimately have "map_of fs' (entry_path dir name) = None"
    using removals [OF disjI2 assms(2)] by simp
  then show "LoadSnapshot None (entry_path dir name) fs' = Inr None"
    by (simp add: LoadSnapshot_def)
qed

end
