(* ===== verification/Writer.thy ===== *)
theory Writer
  imports ProgramProps Disk
begin

text \<open>
  A writer pod that is up. Its syncs and its publications are in steps of their own, so that
  fetches, the walker of the key cache, HTTP requests and publications interleave; it may die in the
  middle of any write to its disk. The invariants are about what it serves, what it carries to the
  database and what it leaves on disk.
\<close>

section \<open>The writer\<close>

text \<open>
  Where a sync and a publication are. \<open>Fetching\<close>: the positions of the sources whose
  goroutines are still running, and what the others have merged.
\<close>

datatype sync_phase = Between_syncs | Fetching "nat list" merged

datatype publish_phase =
    Between_publications | Took_index index | Took_keys index "cache option" | Saving publish_env snapshot

record writer =
  wr_pod :: pod
  wr_sync :: sync_phase
  wr_publish :: publish_phase
  wr_walk :: phase

definition new_writer :: "pod \<Rightarrow> writer" where
  "new_writer p = \<lparr>wr_pod = p, wr_sync = Between_syncs, wr_publish = Between_publications, wr_walk = Top\<rparr>"

definition wanted :: "pod \<Rightarrow> string list \<Rightarrow> bool" where
  "wanted p handles \<longleftrightarrow> handles = handlesFn (sy_store (pd_syncer p))"

text \<open>
  Under which conditions a system runs: what a fetch of a source may bring, what GitHub and the disk
  may answer when keys are fetched, what a start may see, and whether the disk of a writer that is
  gone may be lost. Without restrictions it is \<open>anything\<close>; in an outage only failures.
\<close>

record conditions =
  cn_fetch :: "fetched \<Rightarrow> bool"
  cn_keys :: "fetch_env \<Rightarrow> bool"
  cn_boot :: "boot \<Rightarrow> bool"
  cn_loses :: bool

definition anything :: conditions where
  "anything = \<lparr>cn_fetch = \<lambda>_. True, cn_keys = \<lambda>_. True, cn_boot = \<lambda>_. True, cn_loses = True\<rparr>"

definition permits :: "conditions \<Rightarrow> conditions \<Rightarrow> bool" where
  "permits cn' cn \<longleftrightarrow> (\<forall>f. cn_fetch cn f \<longrightarrow> cn_fetch cn' f) \<and> (\<forall>env. cn_keys cn env \<longrightarrow> cn_keys cn' env) \<and>
     (\<forall>b. cn_boot cn b \<longrightarrow> cn_boot cn' b) \<and> (cn_loses cn \<longrightarrow> cn_loses cn')"

text \<open>The steps of the writer that leave the database alone.\<close>

inductive writer_step :: "conditions \<Rightarrow> config \<Rightarrow> writer \<Rightarrow> writer \<Rightarrow> bool"
    for cn :: conditions and cfg :: config where
  sync_begins:
    "wr_sync w = Between_syncs \<Longrightarrow>
     writer_step cn cfg w (w\<lparr>wr_sync := Fetching [0..<length (pd_sources (wr_pod w))] nothing_merged\<rparr>)"
| fetches:
    "wr_sync w = Fetching todo mg \<Longrightarrow> i \<in> set todo \<Longrightarrow>
     observe wd (pd_sources (wr_pod w) ! i) = Some (f, src) \<Longrightarrow> cn_fetch cn f \<Longrightarrow>
     merge_source (pd_syncer (wr_pod w), mg) f = (s, mg') \<Longrightarrow>
     writer_step cn cfg w
       (w\<lparr>wr_sync := Fetching (remove1 i todo) mg',
          wr_pod := (wr_pod w)\<lparr>pd_syncer := s, pd_sources := (pd_sources (wr_pod w))[i := src]\<rparr>\<rparr>)"
| sync_ends:
    "wr_sync w = Fetching [] mg \<Longrightarrow>
     finish_sync now env mg (pd_syncer (wr_pod w)) (pd_fs (wr_pod w)) = (idx, s, states) \<Longrightarrow>
     writer_step cn cfg w
       (w\<lparr>wr_sync := Between_syncs,
          wr_pod := (wr_pod w)\<lparr>pd_syncer := s, pd_fs := final_state (pd_fs (wr_pod w)) states\<rparr>\<rparr>)"
| takes_index:
    "wr_publish w = Between_publications \<Longrightarrow> Store_Get (sy_store (pd_syncer (wr_pod w))) = Some idx \<Longrightarrow>
     writer_step cn cfg w (w\<lparr>wr_publish := Took_index idx\<rparr>)"
| takes_keys:
    "wr_publish w = Took_index idx \<Longrightarrow>
     writer_step cn cfg w (w\<lparr>wr_publish := Took_keys idx (pd_keys (wr_pod w))\<rparr>)"
| takes_statuses:
    "wr_publish w = Took_keys idx kc \<Longrightarrow>
     writer_step cn cfg w
       (w\<lparr>wr_publish := Saving env (live_snapshot env idx kc (Statuses (pd_syncer (wr_pod w))))\<rparr>)"
| walks:
    "pd_keys (wr_pod w) = Some c \<Longrightarrow>
     walk_step (cn_keys cn) (wanted (wr_pod w)) (wr_walk w, c, pd_fs (wr_pod w)) (ph, c', fs) \<Longrightarrow>
     writer_step cn cfg w (w\<lparr>wr_walk := ph, wr_pod := (wr_pod w)\<lparr>pd_keys := Some c', pd_fs := fs\<rparr>\<rparr>)"
| answers:
    "ServeHTTP env rq (pod_handler cfg (wr_pod w), pd_fs (wr_pod w)) = (r, h, fs) \<Longrightarrow>
     hd_keys h = map_option Live kc \<Longrightarrow> cn_keys cn (av_fetch env) \<Longrightarrow>
     writer_step cn cfg w (w\<lparr>wr_pod := (wr_pod w)\<lparr>pd_keys := kc, pd_fs := fs\<rparr>\<rparr>)"

text \<open>
  What a crash leaves on the disk: the disk as it is, or one of the states it goes through in the
  save of a sync that ends, or in a write of a key file by the walker or by a request. A crash
  between two removals of a prune leaves what a prune leaves whose later removals fail, so the step
  of the walker covers it.
\<close>

inductive dies_with :: "conditions \<Rightarrow> writer \<Rightarrow> fs \<Rightarrow> bool" for cn :: conditions where
  dies_at_rest: "dies_with cn w (pd_fs (wr_pod w))"
| dies_saving:
    "wr_sync w = Fetching [] mg \<Longrightarrow>
     finish_sync now env mg (pd_syncer (wr_pod w)) (pd_fs (wr_pod w)) = (idx, s, states) \<Longrightarrow>
     disk \<in> set states \<Longrightarrow> dies_with cn w disk"
| dies_writing_keys:
    "pd_keys (wr_pod w) = Some c \<Longrightarrow> cn_keys cn env \<Longrightarrow>
     Cache_fetchOne env h (c, pd_fs (wr_pod w)) = (e, c', states) \<Longrightarrow>
     disk \<in> set states \<Longrightarrow> dies_with cn w disk"

lemma anything_simps [simp]:
  "cn_fetch anything f" "cn_keys anything env" "cn_boot anything b" "cn_loses anything"
  by (simp_all add: anything_def)

lemma permits_anything [simp]: "permits anything cn"
  by (simp add: permits_def)

lemma walk_step_mono:
  assumes "walk_step world desired x y" and "\<And>env. world env \<Longrightarrow> world' env"
    and "\<And>handles. desired handles \<Longrightarrow> desired' handles"
  shows "walk_step world' desired' x y"
  using assms(1) by (cases rule: walk_step.cases) (auto intro: walk_step.intros assms(2,3))

lemma writer_step_mono:
  assumes "writer_step cn cfg w w'" and "permits cn' cn"
  shows "writer_step cn' cfg w w'"
  using assms
proof (induction rule: writer_step.induct)
  case (walks w c ph c' fs)
  have "walk_step (cn_keys cn') (wanted (wr_pod w)) (wr_walk w, c, pd_fs (wr_pod w)) (ph, c', fs)"
    by (rule walk_step_mono [OF walks(2)]) (use walks(3) in \<open>simp_all add: permits_def\<close>)
  then show ?case by (rule writer_step.walks [OF walks(1)])
qed (auto simp: permits_def intro: writer_step.intros)

lemma dies_with_mono: "dies_with cn w disk \<Longrightarrow> permits cn' cn \<Longrightarrow> dies_with cn' w disk"
  by (induction rule: dies_with.induct) (auto simp: permits_def intro: dies_with.intros)

section \<open>The indexes a writer handles\<close>

text \<open>
  What holds of the index a pod serves, and of the index a publication in progress carries to the
  database. A property that every finished sync establishes goes all the way.
\<close>

definition serving :: "(index \<Rightarrow> bool) \<Rightarrow> pod \<Rightarrow> bool" where
  "serving Q p \<longleftrightarrow> (\<exists>i. Store_Get (sy_store (pd_syncer p)) = Some i \<and> Q i)"

fun carries :: "(index \<Rightarrow> bool) \<Rightarrow> publish_phase \<Rightarrow> bool" where
  "carries Q Between_publications \<longleftrightarrow> True"
| "carries Q (Took_index i) \<longleftrightarrow> Q i"
| "carries Q (Took_keys i kc) \<longleftrightarrow> Q i"
| "carries Q (Saving env snap) \<longleftrightarrow> (\<exists>i kc statuses. snap = live_snapshot env i kc statuses \<and> Q i)"

lemma merge_source_frame:
  assumes "merge_source (s, mg) f = (s', mg')"
  shows "sy_store s' = sy_store s" "sy_exclude s' = sy_exclude s"
    "mg_all mg' = mg_all mg @ contribution s f" "s' = snd (fetchOne f s)" "sy_snapshot s' = sy_snapshot s"
  using assms by (auto simp: merge_source_eq)

lemma finish_sync_store:
  assumes "finish_sync now env mg s fs = (idx, s', states)"
  shows "sy_store s' = sy_store s \<and> Store_Get (sy_store s) \<noteq> None \<or>
      Store_Get (sy_store s') = Some (Build now (drop_excluded s (mg_all mg)))"
    and "sy_exclude s' = sy_exclude s" and "sy_lastGood s' = sy_lastGood s" and "sy_snapshot s' = sy_snapshot s"
  using assms by (auto simp: finish_sync_def Let_def split: if_splits)

lemma finish_sync_serving:
  assumes "finish_sync now env mg s fs = (idx, s', states)" and "Q (Build now (drop_excluded s (mg_all mg)))"
    and "\<And>i. Store_Get (sy_store s) = Some i \<Longrightarrow> Q i"
  shows "\<exists>i. Store_Get (sy_store s') = Some i \<and> Q i"
  using finish_sync_store(1) [OF assms(1)] assms(2,3) by auto

lemma writer_step_carries:
  assumes "writer_step cn cfg w w'" and "serving Q (wr_pod w)" and "carries Q (wr_publish w)"
    and "\<And>mg now. wr_sync w = Fetching [] mg \<Longrightarrow> Q (Build now (drop_excluded (pd_syncer (wr_pod w)) (mg_all mg)))"
  shows "serving Q (wr_pod w') \<and> carries Q (wr_publish w')"
  using assms
proof (induction rule: writer_step.induct)
  case (fetches w todo mg i wd f src s mg')
  then show ?case by (simp add: serving_def merge_source_frame(1) [OF fetches.hyps(5)])
next
  case (sync_ends w mg now env idx s states)
  have "\<exists>i. Store_Get (sy_store s) = Some i \<and> Q i"
    using sync_ends by (intro finish_sync_serving [OF sync_ends.hyps(2)]) (auto simp: serving_def)
  with sync_ends.prems(2) show ?case by (simp add: serving_def)
next
  case (takes_statuses w idx kc env)
  then show ?case by auto
qed (auto simp: serving_def)

section \<open>The invariant of the writer\<close>

text \<open>What the writer may serve and publish: a well-formed index without an excluded handle.\<close>

definition index_ok :: "config \<Rightarrow> index \<Rightarrow> bool" where
  "index_ok cfg i \<longleftrightarrow> index_wf i \<and>
     (\<forall>key slug. map_of (ExcludedHandles cfg) key = Some True \<longrightarrow> find_member i slug key = None)"

definition cache_ok :: "config \<Rightarrow> cache \<Rightarrow> bool" where
  "cache_ok cfg c \<longleftrightarrow> gomap (ca_entries c) \<and> kc_CacheDir (ca_cfg c) = kf_CacheDir (cf_Keys cfg)"

definition pod_ok :: "config \<Rightarrow> pod \<Rightarrow> bool" where
  "pod_ok cfg p \<longleftrightarrow> sy_exclude (pd_syncer p) = ExcludedHandles cfg \<and> serving (index_ok cfg) p \<and>
     sy_snapshot (pd_syncer p) = cf_SnapshotPath cfg \<and>
     (kf_Enabled (cf_Keys cfg) \<longleftrightarrow> pd_keys p \<noteq> None) \<and>
     (\<forall>c. pd_keys p = Some c \<longrightarrow> cache_ok cfg c)"

definition writer_ok :: "config \<Rightarrow> writer \<Rightarrow> bool" where
  "writer_ok cfg w \<longleftrightarrow> pod_ok cfg (wr_pod w) \<and> carries (index_ok cfg) (wr_publish w) \<and>
     file_holds (index_ok cfg) (cf_SnapshotPath cfg) (pd_fs (wr_pod w))"

lemma norm_index_ok: "index_ok cfg i \<Longrightarrow> index_ok cfg (norm_index i)"
  by (auto simp: index_ok_def norm_index_wf norm_index_find index_wf_shape)

lemma Build_ok:
  assumes "sy_exclude s = ExcludedHandles cfg"
  shows "index_ok cfg (Build now (drop_excluded s rows))"
proof -
  have "rows_for slug key (drop_excluded s rows) = []" if "map_of (ExcludedHandles cfg) key = Some True" for slug key
    using that assms by (auto simp: rows_for_def filter_empty_conv drop_excluded_def)
  then show ?thesis
    by (simp add: index_ok_def Build_index_wf Build_find_member member_spec_def)
qed

lemma empty_index_ok: "index_ok cfg empty_index"
proof -
  let ?s = "New NewStore 0 [] [] (ExcludedHandles cfg)"
  have "drop_excluded ?s [] = []"
    by (simp add: drop_excluded_def)
  then have "Build zero_time (drop_excluded ?s []) = empty_index"
    by (simp add: Build_def sortProvenance_def empty_index_def)
  moreover have "index_ok cfg (Build zero_time (drop_excluded ?s []))"
    by (rule Build_ok) (simp add: New_def)
  ultimately show ?thesis by simp
qed

lemma cache_ok_fetchOne: "Cache_fetchOne env h (c, fs) = (e, c', states) \<Longrightarrow> cache_ok cfg c \<Longrightarrow> cache_ok cfg c'"
  using Cache_fetchOne_fields(1,2) by (simp add: cache_ok_def)

lemma cache_ok_Refresh: "Cache_Refresh env h (c, fs) = (e, c', fs') \<Longrightarrow> cache_ok cfg c \<Longrightarrow> cache_ok cfg c'"
  using cache_ok_fetchOne by (auto simp: Cache_Refresh_def split: prod.splits)

lemma cache_ok_prune: "prune rm handles (c, fs) = (c', fs') \<Longrightarrow> cache_ok cfg c \<Longrightarrow> cache_ok cfg c'"
  by (auto simp: prune_def Let_def cache_ok_def intro: gomap_filter)

lemma cache_ok_fields [simp]:
  "cache_ok cfg (c\<lparr>ca_warmed := x\<rparr>) = cache_ok cfg c" "cache_ok cfg (c\<lparr>ca_pace := y\<rparr>) = cache_ok cfg c"
  "cache_ok cfg (c\<lparr>ca_lastCycle := z\<rparr>) = cache_ok cfg c"
  by (simp_all add: cache_ok_def)

lemma cache_ok_walk:
  "walk_step world desired x y \<Longrightarrow> cache_ok cfg (fst (snd x)) \<Longrightarrow> cache_ok cfg (fst (snd y))"
  by (induction rule: walk_step.induct) (auto dest: cache_ok_prune cache_ok_fetchOne cache_ok_Refresh)

text \<open>A request leaves the pod as it was, or refreshes the keys of a handle.\<close>

lemma request_refreshes:
  assumes "ServeHTTP env rq (pod_handler cfg p, pd_fs p) = (r, h, fs)"
  obtains "h = pod_handler cfg p" "fs = pd_fs p"
  | c c' handle e where "pd_keys p = Some c"
      "Cache_Refresh (av_fetch env) handle (c, pd_fs p) = (e, c', fs)" "hd_keys h = Some (Live c')"
proof (cases "(h, fs) = (pod_handler cfg p, pd_fs p)")
  case False
  obtain e where e: "route (rq_Path rq) = Some e" "serve env (rq_Query rq) e (pod_handler cfg p, pd_fs p) = (r, h, fs)"
    using assms False by (auto simp: ServeHTTP_def split: option.splits if_splits)
  then obtain handle where "e = Handle_keys handle"
    using False serve_same by (metis endpoint_ref.distinct(1))
  then have "handleHandleKeys (av_fetch env) handle (rq_Query rq) (pod_handler cfg p, pd_fs p) = (r, h, fs)"
    using e(2) by (simp add: serve_def)
  from handleHandleKeys_change [OF this False]
  obtain kp x kp' where kp: "hd_keys (pod_handler cfg p) = Some kp"
    "Keys_Refresh (av_fetch env) handle (kp, pd_fs p) = (x, kp', fs)" "hd_keys h = Some kp'"
    by auto
  then obtain c where c: "pd_keys p = Some c" "kp = Live c"
    by (auto simp: pod_handler_def)
  obtain y c' fs' where "Cache_Refresh (av_fetch env) handle (c, pd_fs p) = (y, c', fs')"
    by (metis prod_cases3)
  with kp c show thesis
    by (intro that(2) [of c handle y c']) auto
qed (use that(1) in simp)

lemma answer_keys:
  assumes "ServeHTTP env rq (pod_handler cfg p, pd_fs p) = (r, h, fs)" and "hd_keys h = map_option Live kc"
  obtains "kc = pd_keys p" "fs = pd_fs p"
  | c c' handle e where "pd_keys p = Some c" "kc = Some c'"
      "Cache_Refresh (av_fetch env) handle (c, pd_fs p) = (e, c', fs)"
  using assms(1)
proof (cases rule: request_refreshes)
  case 1
  then have "map_option Live kc = map_option Live (pd_keys p)"
    using assms(2) by (simp add: pod_handler_def)
  then have "kc = pd_keys p"
    by (cases kc; cases "pd_keys p") simp_all
  with that(1) 1 show thesis by blast
next
  case (2 c c' handle e)
  with assms(2) that(2) show thesis by (cases kc) simp_all
qed

lemma request_ok:
  assumes "pod_ok cfg p" and "ServeHTTP env rq (pod_handler cfg p, pd_fs p) = (r, h, fs)"
    and "hd_keys h = map_option Live kc"
  shows "pod_ok cfg (p\<lparr>pd_keys := kc, pd_fs := fs\<rparr>)"
  using assms(2,3)
  by (cases rule: answer_keys) (use assms(1) in \<open>auto simp: pod_ok_def serving_def dest: cache_ok_Refresh\<close>)

text \<open>What a step of the writer, or a crash, leaves in the snapshot file.\<close>

lemma writer_step_holds:
  assumes "writer_step cn cfg w w'" and "pod_ok cfg (wr_pod w)"
    and "file_holds Q (cf_SnapshotPath cfg) (pd_fs (wr_pod w))"
    and "harmless Q (kf_CacheDir (cf_Keys cfg)) (cf_SnapshotPath cfg)"
    and "\<And>mg now. wr_sync w = Fetching [] mg \<Longrightarrow>
      Q (norm_index (Build now (drop_excluded (pd_syncer (wr_pod w)) (mg_all mg))))"
  shows "file_holds Q (cf_SnapshotPath cfg) (pd_fs (wr_pod w'))"
  using assms(1)
proof (cases rule: writer_step.cases)
  case (sync_ends mg now env idx s states)
  have "sy_snapshot (pd_syncer (wr_pod w)) = cf_SnapshotPath cfg"
    using assms(2) by (simp add: pod_ok_def)
  with finish_sync_holds [where Q = Q, OF sync_ends(3) _ assms(5) [OF sync_ends(2)] final_state_in] assms(3) sync_ends(1)
  show ?thesis by simp
next
  case (walks c ph c' fs)
  with assms(2-4) walk_step_holds [OF walks(3), of Q "cf_SnapshotPath cfg"] show ?thesis
    by (simp add: pod_ok_def cache_ok_def)
next
  case (answers env rq r h fs kc)
  from answers(2,3) show ?thesis
    by (cases rule: answer_keys)
      (use answers(1) assms(2-4) Refresh_holds [of _ _ _ _ _ _ fs Q "cf_SnapshotPath cfg"] in
        \<open>auto simp: pod_ok_def cache_ok_def\<close>)
qed (use assms(3) in simp_all)

lemma dies_with_holds:
  assumes "dies_with cn w disk" and "pod_ok cfg (wr_pod w)"
    and "file_holds Q (cf_SnapshotPath cfg) (pd_fs (wr_pod w))"
    and "harmless Q (kf_CacheDir (cf_Keys cfg)) (cf_SnapshotPath cfg)"
    and "\<And>mg now. wr_sync w = Fetching [] mg \<Longrightarrow>
      Q (norm_index (Build now (drop_excluded (pd_syncer (wr_pod w)) (mg_all mg))))"
  shows "file_holds Q (cf_SnapshotPath cfg) disk"
  using assms(1)
proof (cases rule: dies_with.cases)
  case (dies_saving mg now env idx s states)
  with finish_sync_holds [where Q = Q, OF dies_saving(2) _ assms(5) [OF dies_saving(1)], of disk] assms(2,3) show ?thesis
    by (simp add: pod_ok_def)
next
  case (dies_writing_keys c env h e c' states)
  with fetchOne_holds [OF dies_writing_keys(3) assms(3), of disk] assms(2,4) show ?thesis
    by (simp add: pod_ok_def cache_ok_def)
qed (use assms(3) in simp)

lemma writer_builds_ok:
  "writer_ok cfg w \<Longrightarrow> index_ok cfg (Build now (drop_excluded (pd_syncer (wr_pod w)) rows))"
  by (rule Build_ok) (simp add: writer_ok_def pod_ok_def)

lemma dies_with_ok:
  assumes "dies_with cn w disk" and "writer_ok cfg w"
  shows "file_holds (index_ok cfg) (cf_SnapshotPath cfg) disk"
  by (rule dies_with_holds [OF assms(1)])
    (use assms(2) in \<open>simp_all add: harmless_def empty_index_ok norm_index_ok writer_builds_ok, simp_all add: writer_ok_def\<close>)

lemma writer_step_ok:
  assumes "writer_step cn cfg w w'" and "writer_ok cfg w"
  shows "writer_ok cfg w'"
proof -
  have pod: "pod_ok cfg (wr_pod w)" and carried: "carries (index_ok cfg) (wr_publish w)"
    and disk: "file_holds (index_ok cfg) (cf_SnapshotPath cfg) (pd_fs (wr_pod w))"
    using assms(2) by (simp_all add: writer_ok_def)
  note built = writer_builds_ok [OF assms(2)]
  have flow: "serving (index_ok cfg) (wr_pod w') \<and> carries (index_ok cfg) (wr_publish w')"
    using pod carried built by (intro writer_step_carries [OF assms(1)]) (simp_all add: pod_ok_def)
  have "file_holds (index_ok cfg) (cf_SnapshotPath cfg) (pd_fs (wr_pod w'))"
    by (rule writer_step_holds [OF assms(1) pod disk]) (simp_all add: harmless_def empty_index_ok norm_index_ok built)
  moreover from assms(1) have "pod_ok cfg (wr_pod w')"
  proof (cases rule: writer_step.cases)
    case (fetches todo mg i wd f src s mg')
    with pod flow show ?thesis by (simp add: pod_ok_def merge_source_frame(2,5) [OF fetches(6)])
  next
    case (sync_ends mg now env idx s states)
    with pod flow show ?thesis by (simp add: pod_ok_def finish_sync_store(2,4) [OF sync_ends(3)])
  next
    case (walks c ph c' fs)
    with pod cache_ok_walk [OF walks(3)] flow show ?thesis by (simp add: pod_ok_def)
  next
    case (answers env rq r h fs kc)
    with request_ok [OF pod] show ?thesis by simp
  qed (use pod in simp_all)
  ultimately show ?thesis using flow by (simp add: writer_ok_def)
qed

end
