(* ===== verification/System.thy ===== *)
theory System
  imports Writer
begin

text \<open>
  A writer pod that may crash and start again, on the disk it left or on a new one, its database and
  any number of reader pods as one step relation, in which the steps of the writer interleave with
  the loads of the readers. Every run is a run of the cluster of \<open>Cluster\<close>, so what is proved
  there holds here.
\<close>

section \<open>The system\<close>

text \<open>\<open>sm_disk\<close> is the disk that the next writer finds, once the one before is gone.\<close>

record system =
  sm_db :: db
  sm_published :: "snapshot list"
  sm_writer :: "writer option"
  sm_disk :: fs
  sm_readers :: "nat \<Rightarrow> reading"

definition fresh_generation :: "snapshot \<Rightarrow> snapshot list \<Rightarrow> bool" where
  "fresh_generation snap snaps \<longleftrightarrow> sn_Generation snap \<noteq> 0 \<and> sn_Generation snap \<notin> set (generations snaps)"

text \<open>
  The start of a writer, with the first publication in it, is one step. That two publications never have the same clock reading is an assumption here.
  \<open>starts_up\<close> is the start up to the save of the first sync, in which the process may die too.
\<close>

definition boots_with ::
    "conditions \<Rightarrow> config \<Rightarrow> db \<Rightarrow> boot \<Rightarrow> fs \<Rightarrow> pod \<Rightarrow> db \<Rightarrow> bool" where
  "boots_with cn cfg db b fs p db' \<longleftrightarrow>
     startSyncing cfg b (db, fs) = Some (Inr p, db') \<and> cn_boot cn b \<and>
     (case observe_all (bt_world b) (fst (buildSources (bt_getenv b) cfg)) of
        None \<Rightarrow> False | Some observed \<Rightarrow> list_all (cn_fetch cn) (map fst observed))"

inductive starts_up ::
    "conditions \<Rightarrow> config \<Rightarrow> db \<Rightarrow> boot \<Rightarrow> fs \<Rightarrow> (fetched \<times> source) list \<Rightarrow> syncer \<Rightarrow> fs list \<Rightarrow> db \<Rightarrow> bool"
    for cn :: conditions and cfg :: config where
  "cn_boot cn b \<Longrightarrow> connect_writer cfg b db (new_syncer cfg) = (Inr s, db') \<Longrightarrow>
   observe_all (bt_world b) (fst (buildSources (bt_getenv b) cfg)) = Some observed \<Longrightarrow>
   list_all (cn_fetch cn) (map fst observed) \<Longrightarrow>
   Start (bt_snapshot b) (bt_synced b) (bt_disk b) (map fst observed) s fs = (idx, s', states) \<Longrightarrow>
   starts_up cn cfg db b fs observed s' states db'"

inductive system_step ::
    "conditions \<Rightarrow> config \<Rightarrow> system \<Rightarrow> system \<Rightarrow> bool"
    for cn :: conditions and cfg :: config where
  works:
    "sm_writer s = Some w \<Longrightarrow> writer_step cn cfg w w' \<Longrightarrow>
     system_step cn cfg s (s\<lparr>sm_writer := Some w'\<rparr>)"
| saves:
    "sm_writer s = Some w \<Longrightarrow> wr_publish w = Saving env snap \<Longrightarrow> fresh_generation snap (sm_published s) \<Longrightarrow>
     system_step cn cfg s
       (s\<lparr>sm_db := publish_snapshot env snap (sm_db s), sm_published := snap # sm_published s,
          sm_writer := Some (w\<lparr>wr_publish := Between_publications\<rparr>)\<rparr>)"
| crashes:
    "sm_writer s = Some w \<Longrightarrow> dies_with cn w disk \<Longrightarrow>
     system_step cn cfg s (s\<lparr>sm_writer := None, sm_disk := disk\<rparr>)"
| loses_disk: "sm_writer s = None \<Longrightarrow> cn_loses cn \<Longrightarrow> system_step cn cfg s (s\<lparr>sm_disk := []\<rparr>)"
| boots:
    "sm_writer s = None \<Longrightarrow> boots_with cn cfg (sm_db s) b (sm_disk s) p db \<Longrightarrow>
     Store_Get (sy_store (pd_syncer p)) = Some idx \<Longrightarrow>
     snap = live_snapshot (bt_publish b) idx (pd_keys p) (Statuses (pd_syncer p)) \<Longrightarrow>
     fresh_generation snap (sm_published s) \<Longrightarrow>
     system_step cn cfg s
       (s\<lparr>sm_db := db, sm_published := snap # sm_published s, sm_writer := Some (new_writer p)\<rparr>)"
| boot_fails:
    "sm_writer s = None \<Longrightarrow> startSyncing cfg b (sm_db s, sm_disk s) = Some (Inl e, db) \<Longrightarrow>
     system_step cn cfg s (s\<lparr>sm_db := db\<rparr>)"
| boot_dies:
    "sm_writer s = None \<Longrightarrow> starts_up cn cfg (sm_db s) b (sm_disk s) observed sy states db \<Longrightarrow>
     disk \<in> set (sm_disk s # states) \<Longrightarrow>
     system_step cn cfg s (s\<lparr>sm_db := db, sm_disk := disk\<rparr>)"
| migrates:
    "system_step cn cfg s (s\<lparr>sm_db := snd (Pg_ensureSchema ans (sm_db s))\<rparr>)"
| polls:
    "reader_step (sm_db s) (sm_readers s i) rd \<Longrightarrow>
     system_step cn cfg s (s\<lparr>sm_readers := (sm_readers s)(i := rd)\<rparr>)"

text \<open>Nothing has run yet. In a run without restrictions every fetch and every start may happen.\<close>

definition new_system :: system where
  "new_system = \<lparr>sm_db = No_table, sm_published = [], sm_writer = None, sm_disk = [],
     sm_readers = (\<lambda>_. new_reading)\<rparr>"

abbreviation runs :: "config \<Rightarrow> system \<Rightarrow> system \<Rightarrow> bool" where
  "runs cfg \<equiv> (system_step anything cfg)\<^sup>*\<^sup>*"

lemma boots_with_mono:
  "boots_with cn cfg db b fs p db' \<Longrightarrow> permits cn' cn \<Longrightarrow> boots_with cn' cfg db b fs p db'"
  by (auto simp: boots_with_def permits_def list_all_iff split: option.splits)

lemma starts_up_mono:
  "starts_up cn cfg db b fs observed s states db' \<Longrightarrow> permits cn' cn \<Longrightarrow>
   starts_up cn' cfg db b fs observed s states db'"
  by (auto simp: list_all_iff permits_def intro!: starts_up.intros elim!: starts_up.cases)

lemma system_step_mono:
  assumes "system_step cn cfg s s'" and "permits cn' cn"
  shows "system_step cn' cfg s s'"
  using assms(1)
proof (induction rule: system_step.induct)
  case (loses_disk s)
  with assms(2) show ?case by (auto simp: permits_def intro: system_step.loses_disk)
qed (use assms(2) in \<open>blast intro: system_step.intros writer_step_mono dies_with_mono boots_with_mono starts_up_mono\<close>)+

lemma runs_mono:
  assumes "(system_step cn cfg)\<^sup>*\<^sup>* s t" and "permits cn' cn"
  shows "(system_step cn' cfg)\<^sup>*\<^sup>* s t"
  using assms(1)
  by (induction rule: rtranclp_induct) (auto intro: system_step_mono [OF _ assms(2)] rtranclp.rtrancl_into_rtrancl)

lemma runs_any: "(system_step cn cfg)\<^sup>*\<^sup>* s t \<Longrightarrow> runs cfg s t"
  by (rule runs_mono [OF _ permits_anything])

section \<open>Refinement of the cluster\<close>

definition cluster_of :: "system \<Rightarrow> cluster" where
  "cluster_of s = \<lparr>cl_db = sm_db s, cl_published = sm_published s, cl_readers = sm_readers s\<rparr>"

definition system_ok :: "config \<Rightarrow> system \<Rightarrow> bool" where
  "system_ok cfg s \<longleftrightarrow>
     (\<forall>w. sm_writer s = Some w \<longrightarrow> writer_ok cfg w) \<and>
     (\<forall>snap\<in>set (sm_published s). \<exists>i. sn_Index snap = Some i \<and> index_ok cfg i) \<and>
     file_holds (index_ok cfg) (cf_SnapshotPath cfg) (sm_disk s) \<and>
     cluster_step\<^sup>*\<^sup>* new_cluster (cluster_of s)"

section \<open>The start of the writer\<close>

lemma gomap_load_files: "load_files re files out = Inr out' \<Longrightarrow> gomap out \<Longrightarrow> gomap out'"
  by (induction files arbitrary: out) (auto split: prod.splits if_splits option.splits)

lemma gomap_loadCache: "loadCache re dir fs = Inr out \<Longrightarrow> gomap out"
  by (auto simp: loadCache_def split: if_splits dir_answer.splits dest: gomap_load_files)

lemma gomap_Cache_Start: "ca_entries c = [] \<Longrightarrow> gomap (ca_entries (Cache_Start now re fs c))"
  by (auto simp: Cache_Start_def Let_def split: sum.split dest: gomap_loadCache)

lemma Cache_New_entries [simp]: "ca_entries (Cache_New k) = []"
  by (simp add: Cache_New_def Let_def)

text \<open>A writer that comes up has migrated the database and seeded itself from the row.\<close>

lemma connected:
  assumes "connect_writer cfg b db s = (Inr s', db')" and "is_writer cfg"
  shows "db' = snd (Pg_ensureSchema Answered db)" and "s' = Seed (loadPublishedIndex (bt_load b) db') s"
    and "db' \<noteq> No_table"
  using assms
  by (auto simp: connect_writer_def Pg_New_def Pg_ensureSchema_def Let_def
      split: option.splits pg_answer.splits db.splits prod.splits if_splits)

lemma connect_fails:
  assumes "connect_writer cfg b db s = (Inl e, db')"
  shows "db' = db \<or> (\<exists>ans. db' = snd (Pg_ensureSchema ans db))"
  using assms
  by (auto simp: connect_writer_def Pg_New_def split: option.splits prod.splits if_splits) (metis snd_conv)

text \<open>
  Where the first sync of a writer starts from: the published snapshot, and over it the snapshot
  file of the disk.
\<close>

definition restart_from :: "config \<Rightarrow> boot \<Rightarrow> db \<Rightarrow> fs \<Rightarrow> syncer" where
  "restart_from cfg b db fs = recover (bt_snapshot b) (Seed (loadPublishedIndex (bt_load b) db) (new_syncer cfg)) fs"

lemma Seed_new_frame [simp]:
  "sy_exclude (Seed idx (new_syncer cfg)) = ExcludedHandles cfg"
  "sy_snapshot (Seed idx (new_syncer cfg)) = cf_SnapshotPath cfg"
  by (simp_all add: Seed_def new_syncer_def New_def split: option.split)

lemma restart_from_frame [simp]:
  "sy_exclude (restart_from cfg b db fs) = ExcludedHandles cfg"
  "sy_snapshot (restart_from cfg b db fs) = cf_SnapshotPath cfg"
  by (simp_all add: restart_from_def)

lemma started_up:
  assumes "starts_up cn cfg db b fs observed s states db'" and "is_writer cfg"
  shows "db' = snd (Pg_ensureSchema Answered db)" "db' \<noteq> No_table" "cn_boot cn b"
    and "observe_all (bt_world b) (fst (buildSources (bt_getenv b) cfg)) = Some observed"
    and "\<And>f. f \<in> set (map fst observed) \<Longrightarrow> cn_fetch cn f" "distinct (map fe_Name (map fst observed))"
    and "\<exists>idx. Sync (bt_synced b) (bt_disk b) (map fst observed) (restart_from cfg b db' fs) fs = (idx, s, states)"
proof -
  obtain s0 idx where 1: "cn_boot cn b" "connect_writer cfg b db (new_syncer cfg) = (Inr s0, db')"
    "observe_all (bt_world b) (fst (buildSources (bt_getenv b) cfg)) = Some observed"
    "list_all (cn_fetch cn) (map fst observed)"
    "Start (bt_snapshot b) (bt_synced b) (bt_disk b) (map fst observed) s0 fs = (idx, s, states)"
    using assms(1) by cases
  note conn = connected [OF 1(2) assms(2)]
  show "db' = snd (Pg_ensureSchema Answered db)" "db' \<noteq> No_table" "cn_boot cn b"
    "observe_all (bt_world b) (fst (buildSources (bt_getenv b) cfg)) = Some observed"
    using conn 1 by auto
  show "cn_fetch cn f" if "f \<in> set (map fst observed)" for f
    using 1(4) that by (auto simp: list_all_iff)
  show "distinct (map fe_Name (map fst observed))"
    using observe_all_Some(1) [OF 1(3)] buildSources_names by metis
  show "\<exists>idx. Sync (bt_synced b) (bt_disk b) (map fst observed) (restart_from cfg b db' fs) fs = (idx, s, states)"
    using 1(5) conn(2) by (auto simp: Start_def restart_from_def)
qed

lemma started:
  assumes "boots_with cn cfg db b fs p out" and "is_writer cfg"
  obtains db' observed states where
    "starts_up cn cfg db b fs observed (pd_syncer p) states db'"
    "pd_sources p = map snd observed" "pd_fs p = final_state fs states"
    "pd_keys p = map_option (Cache_Start (bt_started b) (bt_entries b) (pd_fs p)) (buildKeyCache cfg)"
    "out = publish (bt_publish b) (sy_store (pd_syncer p)) (pd_keys p) (Statuses (pd_syncer p)) db'"
proof -
  have start: "startSyncing cfg b (db, fs) = Some (Inr p, out)" and boot: "cn_boot cn b"
    using assms(1) by (simp_all add: boots_with_def)
  show thesis
  proof (rule startSyncing_pod [OF start])
    fix s db' obs idx states
    assume conn: "connect_writer cfg b db (new_syncer cfg) = (Inr s, db')"
      and obs: "observe_all (bt_world b) (fst (buildSources (bt_getenv b) cfg)) = Some obs"
      and start': "Start (bt_snapshot b) (bt_synced b) (bt_disk b) (map fst obs) s fs = (idx, pd_syncer p, states)"
      and kc: "pd_keys p = map_option (Cache_Start (bt_started b) (bt_entries b) (final_state fs states)) (buildKeyCache cfg)"
      and out: "out = (if is_writer cfg
         then publish (bt_publish b) (sy_store (pd_syncer p)) (pd_keys p) (Statuses (pd_syncer p)) db' else db')"
    obtain x kc' client where "\<lparr>pd_syncer = x, pd_sources = map snd obs, pd_keys = kc', pd_orgs = client,
        pd_fs = final_state fs states\<rparr> = p"
      using start obs start' conn by (auto simp: startSyncing_def Let_def split: prod.splits)
    then have fields: "pd_sources p = map snd obs" "pd_fs p = final_state fs states"
      by auto
    have "list_all (cn_fetch cn) (map fst obs)"
      using assms(1) by (simp add: boots_with_def obs)
    from starts_up.intros [of cn b, OF boot conn obs this start'] fields kc out assms(2) that [of obs states db']
    show thesis by simp
  qed
qed

text \<open>
  A start leaves in memory and on disk indexes with a property that holds of what it starts from and
  of what its sync builds.
\<close>

lemma Sync_leaves:
  assumes run: "Sync now env srcs s fs = (idx, t, states)"
    and built: "\<And>s' mg. fetch_all srcs s = (s', mg) \<Longrightarrow> Q (Build now (drop_excluded s' (mg_all mg)))"
    and store: "\<And>i. Store_Get (sy_store s) = Some i \<Longrightarrow> Q i"
    and disk: "file_holds Q (sy_snapshot s) fs" and norm: "\<And>i. Q i \<Longrightarrow> Q (norm_index i)"
  shows "\<exists>i. Store_Get (sy_store t) = Some i \<and> Q i"
    and "d \<in> set (fs # states) \<Longrightarrow> file_holds Q (sy_snapshot s) d"
proof -
  obtain s' mg where all: "fetch_all srcs s = (s', mg)"
    by fastforce
  have fin: "finish_sync now env mg s' fs = (idx, t, states)"
    using run by (simp add: Sync_def all)
  have frame: "sy_store s' = sy_store s" "sy_snapshot s' = sy_snapshot s"
    using all by (metis fetch_all_def fold_fetch_frame(1,4) fold_merge_source_state fst_conv)+
  show "\<exists>i. Store_Get (sy_store t) = Some i \<and> Q i"
    using finish_sync_store(1) [OF fin] built [OF all] store frame(1) by auto
  show "file_holds Q (sy_snapshot s) d" if "d \<in> set (fs # states)"
    using finish_sync_holds [where Q = Q, OF fin _ norm [OF built [OF all]] that] disk frame(2) by simp
qed

lemma restart_store:
  assumes "file_holds Q (cf_SnapshotPath cfg) fs" and "\<And>i. loadPublishedIndex (bt_load b) db = Some i \<Longrightarrow> Q i"
    and "Store_Get (sy_store (restart_from cfg b db fs)) = Some i"
  shows "Q i"
proof (rule recover_store [where Q = Q])
  show "file_holds Q (sy_snapshot (Seed (loadPublishedIndex (bt_load b) db) (new_syncer cfg))) fs"
    using assms(1) by simp
  show "Store_Get (sy_store (recover (bt_snapshot b) (Seed (loadPublishedIndex (bt_load b) db) (new_syncer cfg)) fs)) = Some i"
    using assms(3) by (simp add: restart_from_def)
  show "Q j" if "Store_Get (sy_store (Seed (loadPublishedIndex (bt_load b) db) (new_syncer cfg))) = Some j" for j
    using that assms(2) by (auto simp: Seed_def new_syncer_def New_def split: option.splits if_splits)
qed

lemma start_leaves:
  assumes up: "starts_up cn cfg db b fs observed s states db'" and "is_writer cfg"
    and seed: "\<And>i. loadPublishedIndex (bt_load b) db' = Some i \<Longrightarrow> Q i"
    and disk: "file_holds Q (cf_SnapshotPath cfg) fs" and norm: "\<And>i. Q i \<Longrightarrow> Q (norm_index i)"
    and built: "\<And>t mg. fetch_all (map fst observed) (restart_from cfg b db' fs) = (t, mg) \<Longrightarrow>
      Q (Build (bt_synced b) (drop_excluded t (mg_all mg)))"
  shows "\<exists>i. Store_Get (sy_store s) = Some i \<and> Q i"
    and "d \<in> set (fs # states) \<Longrightarrow> file_holds Q (cf_SnapshotPath cfg) d"
proof -
  obtain idx where run: "Sync (bt_synced b) (bt_disk b) (map fst observed) (restart_from cfg b db' fs) fs = (idx, s, states)"
    using started_up(7) [OF assms(1,2)] by blast
  have store: "Q i" if "Store_Get (sy_store (restart_from cfg b db' fs)) = Some i" for i
    by (rule restart_store [where Q = Q, OF disk seed that])
  show "\<exists>i. Store_Get (sy_store s) = Some i \<and> Q i"
    by (rule Sync_leaves(1) [where Q = Q, OF run built store _ norm]) (use disk in simp_all)
  show "file_holds Q (cf_SnapshotPath cfg) d" if "d \<in> set (fs # states)"
    using Sync_leaves(2) [where Q = Q, OF run built store _ norm that] disk by simp
qed

lemma start_leaves_ok:
  assumes up: "starts_up cn cfg db b fs observed s states db'" and "is_writer cfg"
    and "\<And>i. loadPublishedIndex (bt_load b) db' = Some i \<Longrightarrow> index_ok cfg i"
    and "file_holds (index_ok cfg) (cf_SnapshotPath cfg) fs"
  shows "\<exists>i. Store_Get (sy_store s) = Some i \<and> index_ok cfg i"
    and "d \<in> set (fs # states) \<Longrightarrow> file_holds (index_ok cfg) (cf_SnapshotPath cfg) d"
proof -
  have built: "index_ok cfg (Build (bt_synced b) (drop_excluded t (mg_all mg)))"
    if "fetch_all (map fst observed) (restart_from cfg b db' fs) = (t, mg)" for t mg
  proof (rule Build_ok)
    have "sy_exclude t = sy_exclude (restart_from cfg b db' fs)"
      using that by (metis fetch_all_def fold_fetch_frame(3) fold_merge_source_state fst_conv)
    then show "sy_exclude t = ExcludedHandles cfg" by simp
  qed
  note leaves = start_leaves [where Q = "index_ok cfg", OF up assms(2) assms(3,4) norm_index_ok built]
  show "\<exists>i. Store_Get (sy_store s) = Some i \<and> index_ok cfg i" by (rule leaves(1))
  show "file_holds (index_ok cfg) (cf_SnapshotPath cfg) d" if "d \<in> set (fs # states)" by (rule leaves(2) [OF _ _ _ that])
qed

lemma new_cache_ok: "buildKeyCache cfg = Some c \<Longrightarrow> cache_ok cfg (Cache_Start now re fs c)"
proof -
  assume "buildKeyCache cfg = Some c"
  then have "ca_entries c = []" "kc_CacheDir (ca_cfg c) = kf_CacheDir (cf_Keys cfg)"
    by (auto simp: buildKeyCache_def Cache_New_def Let_def split: if_splits)
  moreover have "ca_cfg (Cache_Start now re fs c) = ca_cfg c"
    by (simp add: Cache_Start_def Let_def split: sum.split)
  ultimately show ?thesis
    by (simp add: cache_ok_def gomap_Cache_Start)
qed

lemma boot_pod_ok:
  assumes "boots_with cn cfg db b fs p out" and "is_writer cfg"
    and "\<And>i. loadPublishedIndex (bt_load b) (snd (Pg_ensureSchema Answered db)) = Some i \<Longrightarrow> index_ok cfg i"
    and "file_holds (index_ok cfg) (cf_SnapshotPath cfg) fs"
  shows "pod_ok cfg p" and "file_holds (index_ok cfg) (cf_SnapshotPath cfg) (pd_fs p)"
proof -
  obtain db' observed states where up: "starts_up cn cfg db b fs observed (pd_syncer p) states db'"
    and disk: "pd_fs p = final_state fs states"
    and kc: "pd_keys p = map_option (Cache_Start (bt_started b) (bt_entries b) (pd_fs p)) (buildKeyCache cfg)"
    by (rule started [OF assms(1,2)])
  note start = started_up [OF up assms(2)]
  note leaves = start_leaves_ok [OF up assms(2) assms(3) [folded start(1)] assms(4)]
  have "pd_keys p = Some c \<Longrightarrow> cache_ok cfg c" for c
    using new_cache_ok by (auto simp: kc)
  moreover have "kf_Enabled (cf_Keys cfg) \<longleftrightarrow> pd_keys p \<noteq> None"
    by (simp add: kc buildKeyCache_def Let_def)
  moreover have "sy_exclude (pd_syncer p) = ExcludedHandles cfg" "sy_snapshot (pd_syncer p) = cf_SnapshotPath cfg"
    using start(7) Sync_fields(2,3) [of "bt_synced b" "bt_disk b" "map fst observed" "restart_from cfg b db' fs" fs] by auto
  ultimately show "pod_ok cfg p"
    using leaves(1) by (simp add: pod_ok_def serving_def)
  show "file_holds (index_ok cfg) (cf_SnapshotPath cfg) (pd_fs p)"
    unfolding disk by (rule leaves(2) [OF _ final_state_in])
qed

section \<open>Reachable states\<close>

text \<open>The index in the row of the database.\<close>

lemma published_index:
  assumes "cluster_ok c" and "loadPublishedIndex ans (snd (Pg_ensureSchema ans' (cl_db c))) = Some i"
  obtains r snap j where "cl_db c = Table (Some r)" "snap \<in> set (cl_published c)" "row_of snap r"
    "sn_Index snap = Some j" "i = norm_index j"
proof -
  from assms(2) obtain r parsed where r: "Pg_Load ans (snd (Pg_ensureSchema ans' (cl_db c))) = Inr (Some r)"
    "Unmarshal (pr_Data r) = Inr parsed" "sn_Index parsed = Some i"
    by (auto simp: loadPublishedIndex_def split: sum.splits option.splits)
  then have db: "cl_db c = Table (Some r)"
    using Pg_Load_Inr ensureSchema_row by blast
  then obtain snap where snap: "snap \<in> set (cl_published c)" "row_of snap r"
    using db_okD(1) [OF cluster_okD(1) [OF assms(1)]] by blast
  then have "parsed = norm_snapshot snap"
    using r(2) by (simp add: row_of_def)
  with r(3) that db snap show thesis by auto
qed

lemma publish_refines:
  assumes "fresh_generation (live_snapshot env i kc statuses) (cl_published c)"
  shows "cluster_step c (c\<lparr>cl_db := publish_snapshot env (live_snapshot env i kc statuses) (cl_db c),
    cl_published := live_snapshot env i kc statuses # cl_published c\<rparr>)"
  using assms by (intro cluster_step.publishes [OF refl]) (auto simp: fresh_generation_def)

lemma migrate_refines: "cluster_step c (c\<lparr>cl_db := snd (Pg_ensureSchema ans (cl_db c))\<rparr>)"
  by (rule cluster_step.migrates [OF refl])

lemma boot_db:
  assumes "boots_with cn cfg db b fs p out" and "is_writer cfg"
    and "Store_Get (sy_store (pd_syncer p)) = Some idx"
  shows "out = publish_snapshot (bt_publish b) (live_snapshot (bt_publish b) idx (pd_keys p) (Statuses (pd_syncer p)))
    (snd (Pg_ensureSchema Answered db))"
proof (rule started [OF assms(1,2)])
  fix db' observed states
  assume "starts_up cn cfg db b fs observed (pd_syncer p) states db'"
    and "out = publish (bt_publish b) (sy_store (pd_syncer p)) (pd_keys p) (Statuses (pd_syncer p)) db'"
  then show ?thesis
    using started_up(1) [OF _ assms(2)] by (simp add: publish_def assms(3))
qed

lemma failed_boot_db:
  assumes "startSyncing cfg b (db, fs) = Some (Inl e, db')"
  shows "db' = db \<or> (\<exists>ans. db' = snd (Pg_ensureSchema ans db))"
proof -
  have "connect_writer cfg b db (new_syncer cfg) = (Inl e, db')"
    using assms by (auto simp: startSyncing_def Let_def split: prod.splits sum.splits option.splits)
  then show ?thesis by (rule connect_fails)
qed

text \<open>Every step of the system is a run of the cluster.\<close>

lemma system_step_refines:
  assumes "system_step cn cfg s s'" and "is_writer cfg" and "system_ok cfg s"
  shows "cluster_step\<^sup>*\<^sup>* (cluster_of s) (cluster_of s')"
  using assms(1,3)
proof (induction rule: system_step.induct)
  case (saves s w env snap)
  then obtain i kc statuses where "snap = live_snapshot env i kc statuses"
    by (auto simp: system_ok_def writer_ok_def)
  with publish_refines [of env i kc statuses "cluster_of s"] saves.hyps(3) show ?case
    by (simp add: cluster_of_def r_into_rtranclp)
next
  case (boots s b p db idx snap)
  let ?c = "cluster_of s\<lparr>cl_db := snd (Pg_ensureSchema Answered (sm_db s))\<rparr>"
  have "cluster_step (cluster_of s) ?c"
    using migrate_refines [of "cluster_of s" Answered] by (simp add: cluster_of_def)
  moreover have "cluster_step ?c (?c\<lparr>cl_db := db, cl_published := snap # sm_published s\<rparr>)"
    using publish_refines [of "bt_publish b" idx "pd_keys p" "Statuses (pd_syncer p)" ?c] boots.hyps(4,5)
    by (simp add: boot_db [OF boots.hyps(2) assms(2) boots.hyps(3)] cluster_of_def)
  ultimately show ?case
    by (auto simp: cluster_of_def)
next
  case (boot_fails s b e db)
  from failed_boot_db [OF boot_fails.hyps(2)] migrate_refines [of "cluster_of s"] show ?case
    by (fastforce simp: cluster_of_def)
next
  case (boot_dies s b observed sy states db disk)
  from started_up(1) [OF boot_dies.hyps(2) assms(2)] migrate_refines [of "cluster_of s" Answered] show ?case
    by (simp add: cluster_of_def r_into_rtranclp)
next
  case (migrates s ans)
  from migrate_refines [of "cluster_of s" ans] show ?case
    by (simp add: cluster_of_def r_into_rtranclp)
next
  case (polls s i rd)
  with cluster_step.polls [of "cluster_of s" i rd] show ?case
    by (simp add: cluster_of_def r_into_rtranclp)
qed (simp_all add: cluster_of_def)

text \<open>Every step keeps what the writer serves and publishes in order.\<close>

lemma seed_ok:
  assumes "system_ok cfg s" and "loadPublishedIndex ans (snd (Pg_ensureSchema Answered (sm_db s))) = Some i"
  shows "index_ok cfg i"
proof -
  have "loadPublishedIndex ans (snd (Pg_ensureSchema Answered (cl_db (cluster_of s)))) = Some i"
    using assms(2) by (simp add: cluster_of_def)
  moreover have "cluster_ok (cluster_of s)"
    using assms(1) cluster_ok_reachable by (simp add: system_ok_def)
  ultimately obtain snap j where "snap \<in> set (sm_published s)" "sn_Index snap = Some j" "i = norm_index j"
    using published_index [of "cluster_of s" ans Answered i] by (metis cluster.select_convs(2) cluster_of_def)
  with assms(1) norm_index_ok show ?thesis by (fastforce simp: system_ok_def)
qed

lemma system_ok_step:
  assumes "system_step cn cfg s s'" and "is_writer cfg" and ok: "system_ok cfg s"
  shows "system_ok cfg s'"
proof -
  have run: "cluster_step\<^sup>*\<^sup>* new_cluster (cluster_of s)"
    and old: "\<And>snap. snap \<in> set (sm_published s) \<Longrightarrow> \<exists>i. sn_Index snap = Some i \<and> index_ok cfg i"
    and wr: "\<And>w. sm_writer s = Some w \<Longrightarrow> writer_ok cfg w"
    and disk: "file_holds (index_ok cfg) (cf_SnapshotPath cfg) (sm_disk s)"
    using ok by (simp_all add: system_ok_def)
  note seed = seed_ok [OF ok]
  have "cluster_step\<^sup>*\<^sup>* new_cluster (cluster_of s')"
    using run system_step_refines [OF assms] by (rule rtranclp_trans)
  moreover have "(\<forall>w. sm_writer s' = Some w \<longrightarrow> writer_ok cfg w) \<and>
      (\<forall>snap\<in>set (sm_published s'). \<exists>i. sn_Index snap = Some i \<and> index_ok cfg i) \<and>
      file_holds (index_ok cfg) (cf_SnapshotPath cfg) (sm_disk s')"
    using assms(1)
  proof (cases rule: system_step.cases)
    case (works w w')
    with wr writer_step_ok old disk show ?thesis by auto
  next
    case (saves w env snap)
    then have w: "writer_ok cfg w" using wr by blast
    then obtain i where "sn_Index snap = Some i" "index_ok cfg i"
      using saves(3) by (auto simp: writer_ok_def live_snapshot_def)
    with saves old disk w show ?thesis by (simp add: writer_ok_def)
  next
    case (crashes w gone)
    with wr have "writer_ok cfg w" by simp
    from dies_with_ok [OF crashes(3) this] crashes old show ?thesis by simp
  next
    case (boots b p db idx snap)
    note pod = boot_pod_ok [OF boots(3) assms(2) seed disk]
    with boots old disk show ?thesis
      by (auto simp: writer_ok_def new_writer_def pod_ok_def serving_def live_snapshot_def)
  next
    case (boot_dies b observed sy states db gone)
    have db: "db = snd (Pg_ensureSchema Answered (sm_db s))"
      by (rule started_up(1) [OF boot_dies(3) assms(2)])
    with start_leaves_ok(2) [OF boot_dies(3) assms(2) seed [folded db] disk boot_dies(4)] boot_dies old show ?thesis
      by simp
  qed (use wr old disk in auto)
  ultimately show ?thesis by (simp add: system_ok_def)
qed

lemma new_system_ok: "system_ok cfg new_system"
  by (simp add: system_ok_def new_system_def cluster_of_def new_cluster_def)

lemma system_ok_runs:
  assumes "runs cfg s t" and "is_writer cfg" and "system_ok cfg s"
  shows "system_ok cfg t"
  using assms(1,3) by (induction rule: rtranclp_induct) (auto intro: system_ok_step [OF _ assms(2)])

lemma system_ok_reachable: "runs cfg new_system t \<Longrightarrow> is_writer cfg \<Longrightarrow> system_ok cfg t"
  by (rule system_ok_runs [OF _ _ new_system_ok])

lemma system_runs_refine:
  assumes "runs cfg s t" and "is_writer cfg" and "system_ok cfg s"
  shows "cluster_step\<^sup>*\<^sup>* (cluster_of s) (cluster_of t)"
  using assms(1)
proof (induction rule: rtranclp_induct)
  case base
  then show ?case by simp
next
  case (step t u)
  have "system_ok cfg t"
    by (rule system_ok_runs [OF step.hyps(1) assms(2,3)])
  from step.IH system_step_refines [OF step.hyps(2) assms(2) this] show ?case
    by (rule rtranclp_trans)
qed

lemma system_okD:
  assumes "system_ok cfg s"
  shows "sm_writer s = Some w \<Longrightarrow> writer_ok cfg w"
    and "snap \<in> set (sm_published s) \<Longrightarrow> \<exists>i. sn_Index snap = Some i \<and> index_ok cfg i"
    and "cluster_step\<^sup>*\<^sup>* new_cluster (cluster_of s)"
  using assms by (simp_all add: system_ok_def)

text \<open>A writer that is up has its table.\<close>

lemma publish_snapshot_table: "db \<noteq> No_table \<Longrightarrow> publish_snapshot env snap db \<noteq> No_table"
  using publish_snapshot_db [of env snap db] by auto

lemma ensureSchema_table: "db \<noteq> No_table \<Longrightarrow> snd (Pg_ensureSchema ans db) = db"
  by (auto simp: Pg_ensureSchema_def Let_def split: db.splits pg_answer.splits)

lemma writer_has_table:
  assumes "runs cfg new_system t" and "is_writer cfg" and "sm_writer t = Some w"
  shows "sm_db t \<noteq> No_table"
proof -
  have "sm_writer t \<noteq> None \<longrightarrow> sm_db t \<noteq> No_table"
    using assms(1)
  proof (induction rule: rtranclp_induct)
    case base
    then show ?case by (simp add: new_system_def)
  next
    case (step t u)
    from step.hyps(2) show ?case
    proof (cases rule: system_step.cases)
      case (boots b p db idx snap)
      have "snd (Pg_ensureSchema Answered (sm_db t)) \<noteq> No_table"
        by (simp add: Pg_ensureSchema_def split: db.split)
      with boots boot_db [OF boots(3) assms(2) boots(4)] publish_snapshot_table show ?thesis by simp
    qed (use step.IH in \<open>auto simp: publish_snapshot_table ensureSchema_table\<close>)
  qed
  with assms(3) show ?thesis by simp
qed

end
