(* ===== verification/Outage.thy ===== *)
theory Outage
  imports System
begin

text \<open>
  A long outage of one source: as long as every fetch of it fails and every start of the writer can
  read the published snapshot, nobody the source contributed is lost, however often the writer
  crashes, on whichever disk it starts again, and whatever else interleaves.
\<close>

section \<open>The outage\<close>

definition outage :: "string \<Rightarrow> fetched \<Rightarrow> bool" where
  "outage name f \<longleftrightarrow> (fe_Name f = name \<longrightarrow> isl (fe_Result f))"

definition source_outage :: "string \<Rightarrow> conditions" where
  "source_outage name = anything\<lparr>cn_fetch := outage name, cn_boot := (\<lambda>b. bt_load b = Answered)\<rparr>"

lemma source_outage_simps [simp]:
  "cn_fetch (source_outage name) = outage name" "cn_boot (source_outage name) b \<longleftrightarrow> bt_load b = Answered"
  by (simp_all add: source_outage_def)

text \<open>A person on a team, as a well-formed index lists them for a source and as a row of the source.\<close>

definition listed :: "string \<Rightarrow> string \<Rightarrow> string \<Rightarrow> index \<Rightarrow> bool" where
  "listed name slug key i \<longleftrightarrow> index_wf i \<and> lists name slug key i"

definition belongs :: "string \<Rightarrow> string \<Rightarrow> string \<Rightarrow> membership \<Rightarrow> bool" where
  "belongs name slug key m \<longleftrightarrow> ms_Source m = name \<and> ms_Team m = slug \<and> slug \<noteq> [] \<and>
     ms_Handle m \<noteq> [] \<and> toLower (ms_Handle m) = key"

definition remembers :: "string \<Rightarrow> string \<Rightarrow> string \<Rightarrow> syncer \<Rightarrow> bool" where
  "remembers name slug key s \<longleftrightarrow> list_ex (belongs name slug key) (lastGoodFor s name)"

text \<open>A sync in progress has yet to ask the source, or has merged the person.\<close>

fun collects :: "string \<Rightarrow> string \<Rightarrow> string \<Rightarrow> source list \<Rightarrow> sync_phase \<Rightarrow> bool" where
  "collects name slug key srcs Between_syncs \<longleftrightarrow> True"
| "collects name slug key srcs (Fetching todo mg) \<longleftrightarrow>
     list_ex (\<lambda>i. Source_Name (srcs ! i) = name) todo \<or> list_ex (belongs name slug key) (mg_all mg)"

definition keeps :: "string \<Rightarrow> string \<Rightarrow> string \<Rightarrow> writer \<Rightarrow> bool" where
  "keeps name slug key w \<longleftrightarrow>
     name \<in> Source_Name ` set (pd_sources (wr_pod w)) \<and>
     map_of (sy_exclude (pd_syncer (wr_pod w))) key \<noteq> Some True \<and>
     remembers name slug key (pd_syncer (wr_pod w)) \<and>
     serving (listed name slug key) (wr_pod w) \<and> carries (listed name slug key) (wr_publish w) \<and>
     collects name slug key (pd_sources (wr_pod w)) (wr_sync w)"

lemma Build_listed:
  assumes "list_ex (belongs name slug key) rows" and "map_of (sy_exclude s) key \<noteq> Some True"
  shows "listed name slug key (Build now (drop_excluded s rows))"
proof -
  obtain m where m: "m \<in> set rows" "belongs name slug key m"
    using assms(1) by (auto simp: list_ex_iff)
  then have "m \<in> set (rows_for slug key (drop_excluded s rows))"
    using assms(2) by (auto simp: rows_for_def drop_excluded_def belongs_def)
  from member_spec_row [OF this] m(2) show ?thesis
    by (auto simp: listed_def lists_def Build_find_member Build_index_wf belongs_def)
qed

lemma norm_listed: "listed name slug key i \<Longrightarrow> listed name slug key (norm_index i)"
  by (simp add: listed_def lists_def norm_index_find index_wf_shape norm_index_wf)

lemma Memberships_belong:
  assumes "listed name slug key i"
  shows "list_ex (belongs name slug key) (Memberships i)"
proof -
  obtain m where "find_member i slug key = Some m" "name \<in> set (mb_Sources m)"
    using assms by (auto simp: listed_def lists_def split: option.splits)
  from Memberships_person [OF _ this] assms show ?thesis
    by (metis belongs_def list_ex_iff listed_def)
qed

section \<open>The steps of the writer\<close>

lemma outage_accepts_nothing: "outage name f \<Longrightarrow> fe_Name f = name \<Longrightarrow> accepted s f = None"
  by (cases "fe_Result f") (simp_all add: outage_def accepted_def)

lemma lastGoodFor_fetch:
  assumes "outage name f"
  shows "lastGoodFor (snd (fetchOne f s)) name = lastGoodFor s name"
proof (cases "fe_Name f = name")
  case True
  then have "accepted s f = None"
    by (rule outage_accepts_nothing [OF assms])
  then show ?thesis by (simp add: lastGoodFor_def fetchOne_lastGood)
next
  case False
  then show ?thesis
    by (auto simp: lastGoodFor_def fetchOne_lastGood gomap_simps split: option.split)
qed

lemma fetched_collects:
  assumes "collects name slug key srcs (Fetching todo mg)" and "remembers name slug key s"
    and "observe wd (srcs ! i) = Some (f, src)" and "outage name f" and "merge_source (s, mg) f = (s', mg')"
  shows "collects name slug key (srcs[i := src]) (Fetching (remove1 i todo) mg')"
proof -
  have names: "Source_Name (srcs[i := src] ! j) = Source_Name (srcs ! j)" for j
    using observe_name [OF assms(3)] by (cases "i < length srcs"; cases "i = j") (simp_all add: not_less list_update_beyond)
  have merged: "mg_all mg' = mg_all mg @ contribution s f"
    by (rule merge_source_frame(3) [OF assms(5)])
  show ?thesis
  proof (cases "fe_Name f = name")
    case True
    then have "contribution s f = lastGoodFor s name"
      using assms(4) failed_contribution by (auto simp: outage_def isl_def)
    with assms(2) show ?thesis by (simp add: merged remembers_def)
  next
    case False
    then have "Source_Name (srcs ! i) \<noteq> name"
      using observe_name [OF assms(3)] by simp
    then have "list_ex (\<lambda>j. Source_Name (srcs ! j) = name) (remove1 i todo) \<longleftrightarrow>
        list_ex (\<lambda>j. Source_Name (srcs ! j) = name) todo"
      by (induction todo) auto
    with assms(1) show ?thesis by (auto simp: merged names)
  qed
qed

lemma sync_in_progress_listed:
  "keeps name slug key w \<Longrightarrow> wr_sync w = Fetching [] mg \<Longrightarrow>
   listed name slug key (Build now (drop_excluded (pd_syncer (wr_pod w)) (mg_all mg)))"
  by (intro Build_listed) (auto simp: keeps_def)

lemma writer_step_keeps:
  assumes "writer_step cn cfg w w'" and "\<And>f. cn_fetch cn f \<Longrightarrow> outage name f" and "keeps name slug key w"
  shows "keeps name slug key w'"
proof -
  have flow: "serving (listed name slug key) (wr_pod w') \<and> carries (listed name slug key) (wr_publish w')"
    using assms(3) sync_in_progress_listed [OF assms(3)] by (intro writer_step_carries [OF assms(1)]) (simp_all add: keeps_def)
  from assms(1) show ?thesis
  proof (cases rule: writer_step.cases)
    case sync_begins
    obtain i where "i < length (pd_sources (wr_pod w))" "Source_Name (pd_sources (wr_pod w) ! i) = name"
      using assms(3) by (auto simp: keeps_def in_set_conv_nth)
    then have "collects name slug key (pd_sources (wr_pod w)) (Fetching [0..<length (pd_sources (wr_pod w))] nothing_merged)"
      by (auto simp: list_ex_iff)
    with sync_begins assms(3) show ?thesis by (simp add: keeps_def)
  next
    case (fetches todo mg i wd f src s mg')
    note failed = assms(2) [OF fetches(5)]
    have s: "s = snd (fetchOne f (pd_syncer (wr_pod w)))"
      by (rule merge_source_frame(4) [OF fetches(6)])
    have "Source_Name ` set ((pd_sources (wr_pod w))[i := src]) = Source_Name ` set (pd_sources (wr_pod w))"
    proof (cases "i < length (pd_sources (wr_pod w))")
      case True
      have "map Source_Name ((pd_sources (wr_pod w))[i := src]) = map Source_Name (pd_sources (wr_pod w))"
        using observe_name [OF fetches(4)] True by (simp add: map_update list_update_same_conv)
      then show ?thesis by (metis list.set_map)
    qed (simp add: not_less list_update_beyond)
    with fetches flow assms(3) fetched_collects [OF _ _ fetches(4) failed fetches(6)] lastGoodFor_fetch [OF failed] show ?thesis
      by (simp add: keeps_def remembers_def s)
  next
    case (sync_ends mg now env idx s states)
    with flow assms(3) finish_sync_store(2,3) [OF sync_ends(3)] show ?thesis
      by (simp add: keeps_def remembers_def lastGoodFor_def)
  qed (use flow assms(3) in \<open>auto simp: keeps_def\<close>)
qed

section \<open>The start of the writer\<close>

lemma restore_remembers: "listed name slug key i \<Longrightarrow> remembers name slug key (restoreLastGood i s)"
proof -
  assume "listed name slug key i"
  from Memberships_belong [OF this] have "list_ex (belongs name slug key) (filter (\<lambda>m. ms_Source m = name) (Memberships i))"
    by (auto simp: list_ex_iff belongs_def)
  then show ?thesis
    by (auto simp: remembers_def lastGoodFor_restore Let_def)
qed

lemma listed_teams: "listed name slug key i \<Longrightarrow> ix_Teams i \<noteq> []"
  by (auto simp: listed_def lists_def find_member_def)

text \<open>The published snapshot seeds the person, and the snapshot file does not take them away.\<close>

lemma restart_remembers:
  assumes "loadPublishedIndex (bt_load b) db = Some i" and "listed name slug key i"
    and "file_holds (listed name slug key) (cf_SnapshotPath cfg) fs"
  shows "remembers name slug key (restart_from cfg b db fs)"
proof -
  let ?s = "Seed (Some i) (new_syncer cfg)"
  have "remembers name slug key ?s"
    using restore_remembers [OF assms(2)] listed_teams [OF assms(2)] by (simp add: Seed_def)
  moreover have "listed name slug key snap"
    if "LoadSnapshot (bt_snapshot b) (cf_SnapshotPath cfg) fs = Inr (Some snap)" for snap
    by (rule file_holds_load [where Q = "listed name slug key", OF assms(3) that])
  ultimately show ?thesis
    using restore_remembers by (auto simp: restart_from_def recover_def assms(1) split: sum.split option.split)
qed

lemma first_sync_collects:
  assumes "fetch_all srcs s = (t, mg)" and "distinct (map fe_Name srcs)" and "\<And>f. f \<in> set srcs \<Longrightarrow> outage name f"
    and "name \<in> fe_Name ` set srcs" and "remembers name slug key s"
  shows "list_ex (belongs name slug key) (mg_all mg)" and "lastGoodFor t name = lastGoodFor s name"
    and "sy_exclude t = sy_exclude s"
proof -
  obtain f where f: "f \<in> set srcs" "fe_Name f = name"
    using assms(4) by blast
  then have "contribution s f = lastGoodFor s name"
    using outage_accepts_nothing [OF assms(3)] by (simp add: contribution_def)
  moreover have mg: "mg_all mg = concat (map (contribution s) srcs)" and t: "t = after_fetches srcs s"
    using assms(1) by (auto simp: fetch_all_eq [OF assms(2)])
  ultimately show "list_ex (belongs name slug key) (mg_all mg)"
    using f(1) assms(5) by (force simp: remembers_def list_ex_iff)
  have "find (\<lambda>f. fe_Name f = name \<and> accepted s f \<noteq> None) srcs = None"
    using outage_accepts_nothing [OF assms(3)] by (auto simp: find_None_iff)
  then show "lastGoodFor t name = lastGoodFor s name"
    by (simp add: lastGoodFor_def t fold_fetch_lastGood [OF assms(2)])
  show "sy_exclude t = sy_exclude s" by (simp add: t)
qed

text \<open>A start during the outage: what its first sync leaves in memory and on disk.\<close>

lemma start_keeps:
  assumes up: "starts_up (source_outage name) cfg db b fs observed s states db'" and "is_writer cfg"
    and row: "loadPublishedIndex Answered db' = Some i" "listed name slug key i"
    and disk: "file_holds (listed name slug key) (cf_SnapshotPath cfg) fs"
    and "name \<in> Source_Name ` set (fst (buildSources (bt_getenv b) cfg))"
    and "map_of (ExcludedHandles cfg) key \<noteq> Some True"
  shows "\<exists>i. Store_Get (sy_store s) = Some i \<and> listed name slug key i"
    and "remembers name slug key s" and "map_of (sy_exclude s) key \<noteq> Some True"
    and "d \<in> set (fs # states) \<Longrightarrow> file_holds (listed name slug key) (cf_SnapshotPath cfg) d"
proof -
  note start = started_up [OF assms(1,2)]
  let ?s = "restart_from cfg b db' fs" and ?srcs = "map fst observed"
  have load: "loadPublishedIndex (bt_load b) db' = Some i"
    using row(1) start(3) by simp
  have "fe_Name ` set ?srcs = Source_Name ` set (fst (buildSources (bt_getenv b) cfg))"
    using observe_all_Some(1) [OF start(4)] by (metis list.set_map)
  then have name: "name \<in> fe_Name ` set ?srcs" using assms(6) by simp
  note collects = first_sync_collects [OF _ start(6) start(5) [unfolded source_outage_simps] name restart_remembers [OF load row(2) disk]]
  have built: "listed name slug key (Build (bt_synced b) (drop_excluded t (mg_all mg)))"
    if "fetch_all ?srcs ?s = (t, mg)" for t mg
    using collects [OF that] assms(7) by (intro Build_listed) simp_all
  have seed: "listed name slug key j" if "loadPublishedIndex (bt_load b) db' = Some j" for j
    using that load row(2) by simp
  note leaves = start_leaves [where Q = "listed name slug key", OF up assms(2) seed disk norm_listed built]
  show "\<exists>i. Store_Get (sy_store s) = Some i \<and> listed name slug key i"
    by (rule leaves(1))
  show "file_holds (listed name slug key) (cf_SnapshotPath cfg) d" if "d \<in> set (fs # states)"
    by (rule leaves(2) [OF _ _ _ that])
  obtain idx t mg where run: "Sync (bt_synced b) (bt_disk b) ?srcs ?s fs = (idx, s, states)"
    and all: "fetch_all ?srcs ?s = (t, mg)"
    using start(7) by (metis surj_pair)
  have fin: "finish_sync (bt_synced b) (bt_disk b) mg t fs = (idx, s, states)"
    using run by (simp add: Sync_def all)
  show "remembers name slug key s" "map_of (sy_exclude s) key \<noteq> Some True"
    using finish_sync_store(2,3) [OF fin] collects(2,3) [OF all] restart_remembers [OF load row(2) disk] assms(7)
    by (simp_all add: remembers_def lastGoodFor_def)
qed

section \<open>The system\<close>

definition row_lists :: "string \<Rightarrow> string \<Rightarrow> string \<Rightarrow> db \<Rightarrow> bool" where
  "row_lists name slug key db \<longleftrightarrow>
     (case loadPublishedIndex Answered db of None \<Rightarrow> False | Some i \<Rightarrow> listed name slug key i)"

lemma row_lists_same:
  assumes "\<And>r. db' = Table (Some r) \<longleftrightarrow> db = Table (Some r)"
  shows "row_lists name slug key db' \<longleftrightarrow> row_lists name slug key db"
proof -
  have "loadPublishedIndex Answered db' = loadPublishedIndex Answered db"
    using assms by (cases db'; cases db)
      (auto simp: loadPublishedIndex_def Pg_Load_def query_row_def split: option.splits)
  then show ?thesis by (simp add: row_lists_def)
qed

lemma publish_lists:
  assumes "row_lists name slug key db" and "listed name slug key i"
  shows "row_lists name slug key (publish_snapshot env (live_snapshot env i kc statuses) db)"
proof -
  have "row_lists name slug key (Table (Some r))" if "row_of (live_snapshot env i kc statuses) r" for r
    using that norm_listed [OF assms(2)]
    by (simp add: row_lists_def loadPublishedIndex_def answered_queries row_of_def live_snapshot_def)
  with publish_snapshot_db [of env "live_snapshot env i kc statuses" db] assms(1) show ?thesis by auto
qed

definition spared :: "config \<Rightarrow> string \<Rightarrow> string \<Rightarrow> string \<Rightarrow> system \<Rightarrow> bool" where
  "spared cfg name slug key s \<longleftrightarrow> row_lists name slug key (sm_db s) \<and>
     file_holds (listed name slug key) (cf_SnapshotPath cfg) (sm_disk s) \<and>
     (\<forall>w. sm_writer s = Some w \<longrightarrow> keeps name slug key w \<and>
        file_holds (listed name slug key) (cf_SnapshotPath cfg) (pd_fs (wr_pod w)))"

lemma spared_by_row:
  assumes "system_ok cfg s" and "sm_writer s = None"
    and "loadPublishedIndex Answered (sm_db s) = Some i" and "lists name slug key i"
    and "file_holds (lists name slug key) (cf_SnapshotPath cfg) (sm_disk s)"
  shows "spared cfg name slug key s"
proof -
  have "sm_db s \<noteq> No_table"
    using assms(3) by (auto simp: loadPublishedIndex_def Pg_Load_def query_row_def)
  then have "index_ok cfg i"
    using seed_ok [OF assms(1)] assms(3) by (metis ensureSchema_table)
  moreover have "file_holds (listed name slug key) (cf_SnapshotPath cfg) (sm_disk s)"
    using assms(1,5) by (auto simp: system_ok_def file_holds_iff listed_def index_ok_def)
  ultimately show ?thesis
    using assms(2-4) by (simp add: spared_def row_lists_def listed_def index_ok_def)
qed

lemma source_names_env: "Source_Name ` set (fst (buildSources getenv cfg)) = Source_Name ` set (fst (buildSources getenv' cfg))"
  by (simp add: buildSources_def Let_def)

lemma spared_boot:
  assumes "spared cfg name slug key s" and boot: "boots_with (source_outage name) cfg (sm_db s) b (sm_disk s) p db"
    and "is_writer cfg" and "name \<in> Source_Name ` set (fst (buildSources (bt_getenv b) cfg))"
    and "map_of (ExcludedHandles cfg) key \<noteq> Some True"
  shows "keeps name slug key (new_writer p)" and "row_lists name slug key db"
    and "file_holds (listed name slug key) (cf_SnapshotPath cfg) (pd_fs p)"
proof -
  have row: "row_lists name slug key (sm_db s)" and disk: "file_holds (listed name slug key) (cf_SnapshotPath cfg) (sm_disk s)"
    using assms(1) by (simp_all add: spared_def)
  obtain db' observed states where
    up: "starts_up (source_outage name) cfg (sm_db s) b (sm_disk s) observed (pd_syncer p) states db'"
    and p: "pd_sources p = map snd observed" "pd_fs p = final_state (sm_disk s) states"
    by (rule started [OF boot assms(3)])
  note start = started_up [OF up assms(3)]
  have "row_lists name slug key db'"
    using row row_lists_same [OF ensureSchema_row] start(1) by metis
  then obtain i where i: "loadPublishedIndex Answered db' = Some i" "listed name slug key i"
    by (auto simp: row_lists_def split: option.splits)
  note kept = start_keeps [OF up assms(3) i disk assms(4,5)]
  have "name \<in> Source_Name ` set (pd_sources p)"
    using assms(4) observe_all_Some(3) [OF start(4)] p(1) by (metis list.set_map)
  with kept(1-3) show "keeps name slug key (new_writer p)"
    by (simp add: keeps_def new_writer_def serving_def)
  obtain idx where idx: "Store_Get (sy_store (pd_syncer p)) = Some idx" "listed name slug key idx"
    using kept(1) by blast
  show "row_lists name slug key db"
    using publish_lists [OF \<open>row_lists name slug key db'\<close> idx(2)] boot_db [OF boot assms(3) idx(1)] start(1) by simp
  show "file_holds (listed name slug key) (cf_SnapshotPath cfg) (pd_fs p)"
    unfolding p(2) by (rule kept(4) [OF final_state_in])
qed

lemma spared_step:
  assumes "system_step (source_outage name) cfg s s'" and "is_writer cfg" and ok: "system_ok cfg s"
    and apart: "\<not> below (kf_CacheDir (cf_Keys cfg)) (cf_SnapshotPath cfg)"
    and "name \<in> Source_Name ` set (fst (buildSources getenv cfg))"
    and "map_of (ExcludedHandles cfg) key \<noteq> Some True" and spared: "spared cfg name slug key s"
  shows "spared cfg name slug key s'"
proof -
  have db: "row_lists name slug key (sm_db s)"
    and disk: "file_holds (listed name slug key) (cf_SnapshotPath cfg) (sm_disk s)"
    and wr: "\<And>w. sm_writer s = Some w \<Longrightarrow> keeps name slug key w"
    and fs: "\<And>w. sm_writer s = Some w \<Longrightarrow> file_holds (listed name slug key) (cf_SnapshotPath cfg) (pd_fs (wr_pod w))"
    and pod: "\<And>w. sm_writer s = Some w \<Longrightarrow> pod_ok cfg (wr_pod w)"
    using spared ok by (simp_all add: spared_def system_ok_def writer_ok_def)
  have harmless: "harmless (listed name slug key) (kf_CacheDir (cf_Keys cfg)) (cf_SnapshotPath cfg)"
    using apart by (simp add: harmless_def)
  have built: "listed name slug key (norm_index (Build now (drop_excluded (pd_syncer (wr_pod w)) (mg_all mg))))"
    if "sm_writer s = Some w" "wr_sync w = Fetching [] mg" for w mg now
    using norm_listed [OF sync_in_progress_listed [OF wr [OF that(1)] that(2)]] .
  have names: "name \<in> Source_Name ` set (fst (buildSources (bt_getenv b) cfg))" for b
    using assms(5) source_names_env by metis
  from assms(1) show ?thesis
  proof (cases rule: system_step.cases)
    case (works w w')
    from writer_step_holds [where Q = "listed name slug key", OF works(3) pod [OF works(2)] fs [OF works(2)] harmless built [OF works(2)]]
      works db disk wr writer_step_keeps [OF works(3)] show ?thesis by (auto simp: spared_def)
  next
    case (saves w env snap)
    then obtain i kc statuses where snap: "snap = live_snapshot env i kc statuses" "listed name slug key i"
      using wr [OF saves(2)] by (auto simp: keeps_def)
    from publish_lists [OF db snap(2)] wr [OF saves(2)] fs [OF saves(2)] disk saves(1) snap(1) show ?thesis
      by (simp add: spared_def keeps_def)
  next
    case (crashes w gone)
    from dies_with_holds [where Q = "listed name slug key", OF crashes(3) pod [OF crashes(2)] fs [OF crashes(2)] harmless built [OF crashes(2)]]
      crashes db show ?thesis by (simp add: spared_def)
  next
    case (boots b p db' idx snap)
    with spared_boot [OF spared boots(3) assms(2) names assms(6)] disk show ?thesis
      by (simp add: spared_def new_writer_def)
  next
    case (boot_fails b e db')
    then have "row_lists name slug key db'"
      using failed_boot_db [OF boot_fails(3)] db row_lists_same [OF ensureSchema_row] by metis
    with boot_fails disk show ?thesis by (simp add: spared_def)
  next
    case (boot_dies b observed sy states db' gone)
    have row: "row_lists name slug key db'"
      using db row_lists_same [OF ensureSchema_row] started_up(1) [OF boot_dies(3) assms(2)] by metis
    then obtain i where i: "loadPublishedIndex Answered db' = Some i" "listed name slug key i"
      by (auto simp: row_lists_def split: option.splits)
    from start_keeps(4) [OF boot_dies(3) assms(2) i disk names assms(6) boot_dies(4)] row boot_dies show ?thesis
      by (simp add: spared_def)
  next
    case (migrates ans)
    with db disk wr fs row_lists_same [OF ensureSchema_row] show ?thesis by (auto simp: spared_def)
  qed (use db disk wr fs in \<open>simp_all add: spared_def\<close>)
qed

lemma spared_runs:
  assumes "(system_step (source_outage name) cfg)\<^sup>*\<^sup>* s t" and "is_writer cfg" and "system_ok cfg s"
    and "\<not> below (kf_CacheDir (cf_Keys cfg)) (cf_SnapshotPath cfg)"
    and "name \<in> Source_Name ` set (fst (buildSources getenv cfg))"
    and "map_of (ExcludedHandles cfg) key \<noteq> Some True" and "spared cfg name slug key s"
  shows "spared cfg name slug key t"
  using assms(1)
proof (induction rule: rtranclp_induct)
  case base
  then show ?case by (rule assms(7))
next
  case (step t u)
  have "system_ok cfg t"
    using system_ok_runs [OF runs_any [OF step.hyps(1)] assms(2,3)] .
  from spared_step [OF step.hyps(2) assms(2) this assms(4-6) step.IH] show ?case .
qed

end
