(* ===== verification/ProtocolGuildProps.thy ===== *)
theory ProtocolGuildProps
  imports ProtocolGuild
begin

text \<open>
  Properties of the Protocol Guild parser: the member count is stripped from a header, a document
  written from a table of teams is read back as that table, a heading ends a team, and the budget
  of missing sections.
\<close>

section \<open>Stripping the member count\<close>

text \<open>A text that ends in a run of a class splits there in one way only.\<close>

lemma span_unique:
  assumes "as @ xs = bs @ ys" and "list_all p xs" and "list_all p ys"
    and "as \<noteq> [] \<Longrightarrow> \<not> p (last as)" and "bs \<noteq> [] \<Longrightarrow> \<not> p (last bs)"
  shows "as = bs \<and> xs = ys"
proof -
  have "takeWhile p (rev (as @ xs)) = rev xs" if "list_all p xs" "as \<noteq> [] \<Longrightarrow> \<not> p (last as)" for as xs
  proof -
    have "takeWhile p (rev xs @ rev as) = rev xs @ takeWhile p (rev as)"
      using that(1) by (intro takeWhile_append2) (simp add: list_all_iff)
    moreover have "takeWhile p (rev as) = []"
      using that(2) by (cases as rule: rev_cases) simp_all
    ultimately show ?thesis by simp
  qed
  from this [OF assms(2,4)] this [OF assms(3,5)] have "rev xs = rev ys"
    using assms(1) by simp
  then show ?thesis using assms(1) by simp
qed

text \<open>A member count: blanks, a dash, blanks, digits, blanks, and the word.\<close>

definition member_words :: "string list" where
  "member_words = [''Members'', ''members'', ''Member'', ''member'']"

definition count_text :: "string \<Rightarrow> string \<Rightarrow> string \<Rightarrow> string \<Rightarrow> string \<Rightarrow> string" where
  "count_text d sp ds sp' w = d @ sp @ ds @ sp' @ w"

definition is_count :: "string \<Rightarrow> string \<Rightarrow> string \<Rightarrow> string \<Rightarrow> string \<Rightarrow> bool" where
  "is_count d sp ds sp' w \<longleftrightarrow> d \<in> set dashes \<and> list_all ws sp \<and> list_all digit ds \<and> ds \<noteq> [] \<and>
     list_all ws sp' \<and> sp' \<noteq> [] \<and> w \<in> set member_words"

lemma last_dash: "d \<in> set dashes \<Longrightarrow> d \<noteq> [] \<and> \<not> ws (last d) \<and> \<not> digit (last d)"
  by (auto simp: dashes_def ws_def digit_def less_eq_char_def)

lemma ws_not_digit: "ws c \<Longrightarrow> \<not> digit c"
  by (auto simp: ws_def digit_def less_eq_char_def)

lemma word_unique: "as @ w = bs @ v \<Longrightarrow> w \<in> set member_words \<Longrightarrow> v \<in> set member_words \<Longrightarrow> w = v"
  by (drule arg_cong [of _ _ rev]) (auto simp: member_words_def)

lemma dash_unique: "as @ d = bs @ e \<Longrightarrow> d \<in> set dashes \<Longrightarrow> e \<in> set dashes \<Longrightarrow> d = e"
  by (drule arg_cong [of _ _ rev]) (auto simp: dashes_def)

lemma last_digits: "list_all digit ds \<Longrightarrow> ds \<noteq> [] \<Longrightarrow> \<not> ws (last ds)"
  using ws_not_digit by (metis Ball_set last_in_set)

lemma last_blanks: "list_all ws sp \<Longrightarrow> d \<in> set dashes \<Longrightarrow> \<not> digit (last (d @ sp))"
  using ws_not_digit last_dash by (metis Ball_set last_appendL last_appendR last_in_set)

lemma count_lasts:
  assumes "is_count d sp ds sp' w"
  shows "\<not> ws (last (x @ d @ sp @ ds))" and "\<not> digit (last (x @ d @ sp))" and "\<not> ws (last (x @ d))"
proof -
  have d: "d \<noteq> []" "\<not> ws (last d)" and ds: "ds \<noteq> []" "\<not> ws (last ds)"
    using assms last_dash last_digits by (auto simp: is_count_def)
  show "\<not> ws (last (x @ d @ sp @ ds))" "\<not> ws (last (x @ d))"
    using d ds by (simp_all add: last_append)
  have "\<not> digit (last (d @ sp))"
    using assms last_blanks by (simp add: is_count_def)
  moreover have "last (x @ d @ sp) = last (d @ sp)"
    using d by (simp add: last_append)
  ultimately show "\<not> digit (last (x @ d @ sp))" by simp
qed

lemma count_text_unique:
  assumes eq: "x @ count_text d sp ds sp' w = y @ count_text e tp es tp' v"
    and c: "is_count d sp ds sp' w" and c': "is_count e tp es tp' v"
  shows "x = y"
proof -
  have parts: "list_all ws sp" "list_all digit ds" "list_all ws sp'" "w \<in> set member_words" "d \<in> set dashes"
    "list_all ws tp" "list_all digit es" "list_all ws tp'" "v \<in> set member_words" "e \<in> set dashes"
    using c c' by (simp_all add: is_count_def)
  have 1: "(x @ d @ sp @ ds @ sp') @ w = (y @ e @ tp @ es @ tp') @ v"
    using eq by (simp add: count_text_def)
  then have "w = v"
    by (rule word_unique) (rule parts)+
  with 1 have 2: "(x @ d @ sp @ ds) @ sp' = (y @ e @ tp @ es) @ tp'"
    by simp
  have 3: "(x @ d @ sp) @ ds = (y @ e @ tp) @ es"
    using span_unique [OF 2 parts(3,8) count_lasts(1) [OF c] count_lasts(1) [OF c']] by simp
  have 4: "(x @ d) @ sp = (y @ e) @ tp"
    using span_unique [OF 3 parts(2,7) count_lasts(2) [OF c] count_lasts(2) [OF c']] by simp
  have 5: "x @ d = y @ e"
    using span_unique [OF 4 parts(1,6) count_lasts(3) [OF c] count_lasts(3) [OF c']] by simp
  with dash_unique [OF 5 parts(5,10)] show ?thesis by simp
qed

lemma in_literal: "(a, b) \<in> set (literal w s) \<longleftrightarrow> a = w \<and> s = w @ b"
  by (auto simp: literal_def starts_with_iff)

lemma run_intros:
  "list_all p a \<Longrightarrow> (caps, rest) \<in> set (run rs b) \<Longrightarrow> (caps, rest) \<in> set (run (Star p # rs) (a @ b))"
  "list_all p a \<Longrightarrow> a \<noteq> [] \<Longrightarrow> (caps, rest) \<in> set (run rs b) \<Longrightarrow> (caps, rest) \<in> set (run (Plus p # rs) (a @ b))"
  "a \<in> set as \<Longrightarrow> (caps, rest) \<in> set (run rs b) \<Longrightarrow> (caps, rest) \<in> set (run (Alts as # rs) (a @ b))"
  unfolding in_run_Cons by (auto simp: fronts_split fronts1_split in_literal)

lemma run_word: "w \<in> set member_words \<Longrightarrow> ([], []) \<in> set (run [Alts [''M'', ''m''], Text ''ember'', Opt ''s'', End] w)"
  by (auto simp: member_words_def literal_def)

text \<open>What \<open>headerCountRe\<close> matches at the front of a text.\<close>

lemma run_headerCount:
  "(caps, rest) \<in> set (run headerCountRe t) \<longleftrightarrow>
     caps = [] \<and> rest = [] \<and>
     (\<exists>b d sp ds sp' w. t = b @ count_text d sp ds sp' w \<and> list_all ws b \<and> is_count d sp ds sp' w)"
  (is "?L = ?R")
proof
  assume ?L
  then obtain b d sp ds sp' w where "t = b @ count_text d sp ds sp' w" "list_all ws b" "is_count d sp ds sp' w"
    "caps = []" "rest = []"
    unfolding headerCountRe_def
    by (simp only: in_run_Cons)
      (auto simp: fronts_split fronts1_split in_literal count_text_def is_count_def member_words_def)
  then show ?R by blast
next
  assume ?R
  then show ?L
    unfolding headerCountRe_def count_text_def is_count_def
    by (auto intro!: run_intros run_word simp del: run.simps)
qed

lemma search_leftmost:
  "(\<And>x y. b = x @ y \<Longrightarrow> y \<noteq> [] \<Longrightarrow> run rs (y @ t) = []) \<Longrightarrow> run rs t = (caps, rest) # others \<Longrightarrow>
   search rs (b @ t) = Some (b, caps, rest)"
proof (induction b)
  case Nil
  then show ?case by (subst search.simps) simp
next
  case (Cons c b)
  have "run rs (y @ t) = []" if "b = x @ y" "y \<noteq> []" for x y
    using Cons.prems(1) [of "c # x" y] that by simp
  with Cons have "search rs (b @ t) = Some (b, caps, rest)" by blast
  moreover have "run rs ((c # b) @ t) = []"
    using Cons.prems(1) [of "[]" "c # b"] by simp
  ultimately show ?case by (subst search.simps) simp
qed

lemma removeAll_headerCount:
  assumes "is_count d sp ds sp' w" and "list_all ws b" and "sec = [] \<or> \<not> ws (last sec)"
  shows "removeAll headerCountRe (sec @ b @ count_text d sp ds sp' w) = sec"
proof -
  let ?t = "b @ count_text d sp ds sp' w"
  have "([], []) \<in> set (run headerCountRe ?t)"
    unfolding run_headerCount using assms(1,2) by blast
  then obtain m others where run: "run headerCountRe ?t = m # others"
    by (cases "run headerCountRe ?t") auto
  have m: "m = ([], [])"
    using run_headerCount [of "fst m" "snd m" ?t] run by (simp add: prod_eq_iff)
  have none: "run headerCountRe (y @ ?t) = []" if "sec = x @ y" "y \<noteq> []" for x y
  proof (rule ccontr)
    assume "run headerCountRe (y @ ?t) \<noteq> []"
    then obtain b' d' tp es tp' v where eq: "y @ ?t = b' @ count_text d' tp es tp' v"
      and b': "list_all ws b'" and c': "is_count d' tp es tp' v"
      by (metis list.set_intros(1) neq_Nil_conv run_headerCount surj_pair)
    have "(y @ b) @ count_text d sp ds sp' w = b' @ count_text d' tp es tp' v"
      using eq by simp
    then have "y @ b = b'"
      using assms(1) c' by (rule count_text_unique)
    then have "ws (last y)"
      using b' that(2) by (metis list_all_append Ball_set last_in_set)
    then show False
      using assms(3) that by auto
  qed
  have "search headerCountRe (sec @ ?t) = Some (sec, [], [])"
    by (rule search_leftmost [where others = others]) (use none run m in blast)+
  moreover have "removeAll headerCountRe [] = []"
  proof -
    have "run headerCountRe [] = []"
      by (simp add: headerCountRe_def dashes_def literal_def)
    then have "search headerCountRe [] = None" by (subst search.simps) simp
    then show ?thesis by (subst removeAll.simps) simp
  qed
  ultimately show ?thesis
    by (subst removeAll.simps) simp
qed

section \<open>Trimmed texts\<close>

lemma trimSpace_iff:
  "trimSpace s = s \<longleftrightarrow> \<not> starts_rune white_space s \<and> \<not> starts_rune (map rev white_space) (rev s)"
proof
  assume s: "trimSpace s = s"
  have "\<not> starts_rune white_space (trimLeft s)"
    by (simp add: trimLeft_def skip_runes_done)
  then have "\<not> starts_rune white_space (trimSpace s)"
    unfolding trimSpace_def using starts_rune_prefix [OF trimRight_prefix] by blast
  moreover have "\<not> starts_rune (map rev white_space) (rev (trimSpace s))"
    by (simp add: trimSpace_def trimRight_def skip_runes_done)
  ultimately show "\<not> starts_rune white_space s \<and> \<not> starts_rune (map rev white_space) (rev s)"
    by (simp add: s)
next
  assume "\<not> starts_rune white_space s \<and> \<not> starts_rune (map rev white_space) (rev s)"
  then show "trimSpace s = s"
    by (simp add: trimSpace_def trimLeft_def trimRight_def skip_runes_id)
qed

lemma starts_rune_hd: "starts_rune ps (c # t) \<Longrightarrow> \<exists>p\<in>set ps. p \<noteq> [] \<and> hd p = c"
  by (auto simp: starts_rune_def starts_with_iff) (metis list.sel(1) hd_append2 append_Cons)

text \<open>A trimmed text stays so at its front when a byte follows that continues no blank.\<close>

lemma starts_rune_append:
  assumes "\<not> starts_rune ps s" and "s \<noteq> []" and "\<forall>p\<in>set ps. c \<notin> set (tl p)"
  shows "\<not> starts_rune ps (s @ c # t)"
proof
  assume "starts_rune ps (s @ c # t)"
  then obtain p q where p: "p \<in> set ps" "p \<noteq> []" "s @ c # t = p @ q"
    by (auto simp: starts_rune_def starts_with_iff)
  show False
  proof (cases "length p \<le> length s")
    case True
    then have "starts_with p s"
      using p(3) by (auto simp: starts_with_iff append_eq_append_conv_if split: if_splits)
        (metis append_take_drop_id take_append take_all)
    then show False using assms(1) p by (auto simp: starts_rune_def)
  next
    case False
    then have "c = p ! length s"
      using p(3) by (metis nth_append nth_append_length not_le)
    moreover have "p ! length s = tl p ! (length s - 1)"
      using assms(2) False by (cases p) (auto simp: nth_Cons')
    moreover have "length s - 1 < length (tl p)"
      using assms(2) False by (cases s) auto
    ultimately have "c \<in> set (tl p)" by simp
    then show False using assms(3) p(1) by blast
  qed
qed

definition front_ok :: "char \<Rightarrow> bool" where
  "front_ok c \<longleftrightarrow> (\<forall>p\<in>set white_space. c \<notin> set (tl p))"

definition end_ok :: "char \<Rightarrow> bool" where
  "end_ok c \<longleftrightarrow> (\<forall>p\<in>set white_space. last p \<noteq> c)"

definition start_ok :: "char \<Rightarrow> bool" where
  "start_ok c \<longleftrightarrow> (\<forall>p\<in>set white_space. hd p \<noteq> c)"

lemma white_space_nonempty: "p \<in> set white_space \<Longrightarrow> p \<noteq> []"
  by (auto simp: white_space_def)

lemma not_ends_rune: "end_ok c \<Longrightarrow> \<not> starts_rune (map rev white_space) (rev (s @ [c]))"
  using starts_rune_hd [of "map rev white_space" c "rev s"] white_space_nonempty
  by (auto simp: end_ok_def hd_rev)

lemma not_starts_rune: "start_ok c \<Longrightarrow> \<not> starts_rune white_space (c # s)"
  using starts_rune_hd [of white_space c s] by (auto simp: start_ok_def)

lemma trimmed_last: "trimSpace s = s \<Longrightarrow> s \<noteq> [] \<Longrightarrow> \<not> ws (last s)"
proof
  assume s: "trimSpace s = s" "s \<noteq> []" and "ws (last s)"
  then have "[last s] \<in> set (map rev white_space)"
    by (auto simp: ws_def white_space_def)
  moreover have "starts_with [last s] (rev s)"
    using s(2) by (cases s rule: rev_cases) simp_all
  ultimately have "starts_rune (map rev white_space) (rev s)"
    by (auto simp: starts_rune_def)
  then show False using s(1) trimSpace_iff by blast
qed

lemma bar_ok: "start_ok CHR ''|''" "end_ok CHR ''|''"
  by (simp_all add: start_ok_def end_ok_def white_space_def)

lemma trimSpace_bars [simp]: "trimSpace (CHR ''|'' # s @ ''|'') = CHR ''|'' # s @ ''|''"
  using not_ends_rune [OF bar_ok(2), of "CHR ''|'' # s"] not_starts_rune [OF bar_ok(1)]
  by (simp add: trimSpace_iff)

lemma trimmed_count:
  assumes "trimSpace sec = sec" and "sec \<noteq> []" and "list_all ws b" and c: "is_count d sp ds sp' w"
  shows "trimSpace (sec @ b @ count_text d sp ds sp' w) = sec @ b @ count_text d sp ds sp' w"
proof -
  have dash: "\<exists>x d'. d = x # d' \<and> front_ok x"
    using c by (auto simp: is_count_def dashes_def front_ok_def white_space_def)
  have blank: "ws x \<Longrightarrow> front_ok x" for x
    by (auto simp: ws_def front_ok_def white_space_def)
  have "\<exists>x t. b @ count_text d sp ds sp' w = x # t \<and> front_ok x"
    using assms(3) dash blank by (cases b) (auto simp: count_text_def)
  then obtain x t where x: "b @ count_text d sp ds sp' w = x # t" "front_ok x" by blast
  have "\<not> starts_rune white_space (sec @ x # t)"
    using assms(1,2) x(2) trimSpace_iff [of sec] by (intro starts_rune_append) (simp_all add: front_ok_def)
  moreover have "\<exists>v y. count_text d sp ds sp' w = v @ [y] \<and> end_ok y"
    using c by (auto simp: is_count_def member_words_def count_text_def end_ok_def white_space_def)
  then have "\<not> starts_rune (map rev white_space) (rev (sec @ b @ count_text d sp ds sp' w))"
    using not_ends_rune by (metis append_assoc)
  ultimately show ?thesis
    using x(1) trimSpace_iff by metis
qed

text \<open>The section key of a bold cell is what stands before the member count.\<close>

lemma sectionName_count:
  assumes "trimSpace sec = sec" and "sec \<noteq> []" and "list_all ws b" and "is_count d sp ds sp' w"
  shows "sectionName (sec @ b @ count_text d sp ds sp' w) = sec"
  using assms trimmed_last
  by (simp add: sectionName_def trimmed_count removeAll_headerCount)

section \<open>Reading a document back\<close>

text \<open>
  A document as its authors mean it: headings, section headers with a member count, and members
  with a profile link. \<open>guild_line\<close> writes a line of it, and \<open>rows_of\<close> says which rows it
  stands for when \<open>team\<close> is the current team.
\<close>

datatype guild_item =
    Heading string
  | Header string nat
  | Person string string bool  \<comment> \<open>name, login, and whether the link ends in a slash\<close>

fun guild_line :: "guild_item \<Rightarrow> string" where
  "guild_line (Heading t) = CHR ''#'' # t"
| "guild_line (Header sec n) = ''| **'' @ sec @ '' - '' @ show_nat n @ '' Members** | **1** |''"
| "guild_line (Person name login slash) =
     ''| ['' @ name @ ''](https://github.com/'' @ login @ (if slash then ''/'' else []) @ '') | 0.5 |''"

fun item_ok :: "guild_item \<Rightarrow> bool" where
  "item_ok (Heading t) \<longleftrightarrow> trimSpace (CHR ''#'' # t) = CHR ''#'' # t \<and> newline \<notin> set t"
| "item_ok (Header sec n) \<longleftrightarrow> trimSpace sec = sec \<and> sec \<noteq> [] \<and> CHR ''*'' \<notin> set sec \<and> newline \<notin> set sec"
| "item_ok (Person name login slash) \<longleftrightarrow> trimSpace name = name \<and> name \<noteq> [] \<and> CHR '']'' \<notin> set name \<and>
     newline \<notin> set name \<and> login \<noteq> [] \<and> list_all login_char login"

fun rows_of :: "guild \<Rightarrow> string \<Rightarrow> guild_item list \<Rightarrow> membership list" where
  "rows_of s team [] = []"
| "rows_of s team (Heading t # items) = rows_of s [] items"
| "rows_of s team (Header sec n # items) = rows_of s (team_of_section s sec) items"
| "rows_of s team (Person name login slash # items) =
     (if team = [] then [] else [guild_row team name login]) @ rows_of s team items"

fun sections_of :: "guild_item list \<Rightarrow> string list" where
  "sections_of [] = []"
| "sections_of (Header sec n # items) = sec # sections_of items"
| "sections_of (_ # items) = sections_of items"

lemma show_nat_digits: "list_all digit (show_nat n) \<and> show_nat n \<noteq> []"
proof (induction n rule: show_nat.induct)
  case (1 n)
  have "digit (char_of (48 + m))" if "m < 10" for m :: nat
    using that by (auto simp: digit_def less_eq_char_def)
  with 1 show ?case by (subst (1 2) show_nat.simps) simp
qed

lemma digit_not_star: "digit c \<Longrightarrow> c \<noteq> CHR ''*'' \<and> c \<noteq> newline"
  by (auto simp: digit_def less_eq_char_def)

lemma match_header:
  assumes "CHR ''*'' \<notin> set cell" and "cell \<noteq> []" and "CHR ''|'' \<notin> set tail"
  shows "match_front teamHeaderRe (''| **'' @ cell @ ''**'' @ tail @ ''|'' @ rest) = Some [cell]"
proof -
  have cell: "list_all (\<lambda>c. c \<noteq> CHR ''*'') cell" and tail: "list_all (\<lambda>c. c \<noteq> CHR ''|'') tail"
    using assms by (auto simp: list_all_iff)
  have stops: "stops ws (Text ''**'' # rs)" "stops (\<lambda>c. c \<noteq> CHR ''*'') (Text ''**'' # rs)"
    "stops (\<lambda>c. c \<noteq> CHR ''|'') (Text ''|'' # rs)" for rs
    by (auto intro!: stops_text simp: ws_def)
  have "run teamHeaderRe (''|'' @ '' '' @ ''**'' @ cell @ ''**'' @ tail @ ''|'' @ rest) =
      run (tl teamHeaderRe) ('' '' @ ''**'' @ cell @ ''**'' @ tail @ ''|'' @ rest)"
    by (simp only: teamHeaderRe_def run_text list.sel)
  also have "\<dots> = run (tl (tl teamHeaderRe)) (''**'' @ cell @ ''**'' @ tail @ ''|'' @ rest)"
    unfolding teamHeaderRe_def list.sel by (rule run_class(1) [OF _ _ stops(1)]) (simp_all add: ws_def)
  also have "\<dots> = run (tl (tl (tl teamHeaderRe))) (cell @ ''**'' @ tail @ ''|'' @ rest)"
    by (simp only: teamHeaderRe_def run_text list.sel)
  also have "\<dots> = map (\<lambda>(caps, r). (cell # caps, r)) (run (drop 4 teamHeaderRe) (''**'' @ tail @ ''|'' @ rest))"
    unfolding teamHeaderRe_def list.sel
    by (rule run_class(5) [OF cell _ stops(2) assms(2), THEN trans]) simp_all
  also have "run (drop 4 teamHeaderRe) (''**'' @ tail @ ''|'' @ rest) = run (drop 5 teamHeaderRe) (tail @ ''|'' @ rest)"
    using run_text [of "''**''" "drop 5 teamHeaderRe" "tail @ ''|'' @ rest"]
    by (simp add: teamHeaderRe_def del: run.simps)
  also have "\<dots> = run [Text ''|''] (''|'' @ rest)"
    using run_class(1) [OF tail _ stops(3), of "''|'' @ rest"] by (simp add: teamHeaderRe_def del: run.simps)
  also have "\<dots> = [([], rest)]"
    by (simp only: run_text run.simps(1))
  finally show ?thesis by (simp add: match_front_def del: run.simps)
qed

lemma match_person:
  assumes "CHR '']'' \<notin> set name" and "name \<noteq> []" and "CHR '')'' \<notin> set url"
  shows "match_front memberLinkRe (''| ['' @ name @ '']('' @ url @ '')'' @ rest) = Some [name, url]"
proof -
  have name: "list_all (\<lambda>c. c \<noteq> CHR '']'') name" and url: "list_all (\<lambda>c. c \<noteq> CHR '')'') url"
    using assms by (auto simp: list_all_iff)
  have stops: "stops ws (Text ''['' # rs)" "stops (\<lambda>c. c \<noteq> CHR '']'') (Text '']('' # rs)" for rs
    by (auto intro!: stops_text simp: ws_def)
  obtain init where "fronts (\<lambda>c. c \<noteq> CHR '')'') (url @ '')'' @ rest) = init @ [(url, '')'' @ rest)]"
    using fronts_last [OF url, of "'')'' @ rest"] by auto
  then obtain others where last: "run [Cap (Star (\<lambda>c. c \<noteq> CHR '')''))] (url @ '')'' @ rest) = ([url], '')'' @ rest) # others"
    by simp
  have "run memberLinkRe (''|'' @ '' '' @ ''['' @ name @ '']('' @ url @ '')'' @ rest) =
      run (tl memberLinkRe) ('' '' @ ''['' @ name @ '']('' @ url @ '')'' @ rest)"
    by (simp only: memberLinkRe_def run_text list.sel)
  also have "\<dots> = run (tl (tl memberLinkRe)) (''['' @ name @ '']('' @ url @ '')'' @ rest)"
    unfolding memberLinkRe_def list.sel by (rule run_class(1) [OF _ _ stops(1)]) (simp_all add: ws_def)
  also have "\<dots> = run (tl (tl (tl memberLinkRe))) (name @ '']('' @ url @ '')'' @ rest)"
    by (simp only: memberLinkRe_def run_text list.sel)
  also have "\<dots> = map (\<lambda>(caps, r). (name # caps, r))
      (run [Text '']('', Cap (Star (\<lambda>c. c \<noteq> CHR '')''))] ('']('' @ url @ '')'' @ rest))"
    unfolding memberLinkRe_def list.sel
    by (rule run_class(4) [OF name _ stops(2) assms(2), THEN trans]) simp_all
  also have "\<dots> = map (\<lambda>(caps, r). (name # caps, r)) (([url], '')'' @ rest) # others)"
    by (simp only: run_text last)
  finally show ?thesis by (simp add: match_front_def del: run.simps)
qed

lemma person_is_no_header: "match_front teamHeaderRe (''| ['' @ rest) = None"
proof -
  have stops: "stops ws (Text ''**'' # rs)" for rs
    by (auto intro!: stops_text simp: ws_def)
  have "run teamHeaderRe (''|'' @ '' '' @ ''['' @ rest) = run (tl teamHeaderRe) ('' '' @ ''['' @ rest)"
    by (simp only: teamHeaderRe_def run_text list.sel)
  also have "\<dots> = run (tl (tl teamHeaderRe)) (''['' @ rest)"
    unfolding teamHeaderRe_def list.sel by (rule run_class(1) [OF _ _ stops]) (simp_all add: ws_def)
  also have "\<dots> = []"
    unfolding teamHeaderRe_def list.sel by (rule run_text_fails) simp
  finally show ?thesis by (simp add: match_front_def del: run.simps)
qed

lemma profile_link:
  assumes "login \<noteq> []" and "list_all login_char login"
  shows "findAll githubUserRe (''https://github.com/'' @ login @ (if slash then ''/'' else [])) = [[login]]"
proof -
  let ?tail = "if slash then ''/'' else []"
  have stops: "stops login_char [Opt ''/'', End]"
    by (auto simp: stops_def literal_def login_char_def)
  have rest: "run [Opt ''/'', End] ?tail = [([], [])]"
    by (simp add: literal_def)
  have tail: "?tail = [] \<or> \<not> login_char (hd ?tail)"
    by (simp add: login_char_def)
  have run: "run githubUserRe (''github.com/'' @ login @ ?tail) = [([login], [])]"
    unfolding githubUserRe_def run_text
    by (subst run_class(4) [OF assms(2) tail stops assms(1)]) (simp only: rest, simp)
  have none: "run githubUserRe (c # cs) = []" if "c \<noteq> CHR ''g''" for c cs
    unfolding githubUserRe_def by (rule run_text_fails) (simp add: that [symmetric])
  have "search githubUserRe (''https://'' @ ''github.com/'' @ login @ ?tail) = Some (''https://'', [login], [])"
  proof (rule search_leftmost [OF _ run])
    fix x y :: string
    assume "''https://'' = x @ y" "y \<noteq> []"
    then have "set y \<subseteq> set ''https://''" by (metis set_append Un_upper2)
    then have "hd y \<noteq> CHR ''g''" using \<open>y \<noteq> []\<close> list.set_sel(1) by fastforce
    then show "run githubUserRe (y @ ''github.com/'' @ login @ ?tail) = []"
      using \<open>y \<noteq> []\<close> none by (cases y) simp_all
  qed
  moreover have "findAll githubUserRe [] = []"
  proof -
    have "run githubUserRe [] = []"
      unfolding githubUserRe_def by (rule run_text_fails) simp
    then have "search githubUserRe [] = None" by (subst search.simps) simp
    then show ?thesis by (subst findAll.simps) simp
  qed
  ultimately show ?thesis
    by (subst findAll.simps) simp
qed

lemma guild_line_trimmed: "item_ok item \<Longrightarrow> trimSpace (guild_line item) = guild_line item"
proof (cases item)
  case (Header sec n)
  show ?thesis
    using trimSpace_bars [of "'' **'' @ sec @ '' - '' @ show_nat n @ '' Members** | **1** ''"] Header by simp
next
  case (Person name login slash)
  show ?thesis
    using trimSpace_bars [of "'' ['' @ name @ ''](https://github.com/'' @ login @
        (if slash then ''/'' else []) @ '') | 0.5 ''"] Person
    by simp
qed simp

lemma guild_line_one_line: "item_ok item \<Longrightarrow> newline \<notin> set (guild_line item)"
proof (cases item)
  case (Header sec n)
  assume "item_ok item"
  moreover have "newline \<notin> set (show_nat n)"
    using show_nat_digits [of n] digit_not_star by (auto simp: list_all_iff)
  ultimately show ?thesis by (simp add: Header)
next
  case (Person name login slash)
  assume "item_ok item"
  moreover have "\<not> login_char newline" by (simp add: login_char_def less_eq_char_def)
  ultimately show ?thesis by (auto simp: Person list_all_iff)
qed simp

lemma parse_header:
  assumes "item_ok (Header sec n)"
  shows "parse_line s st (guild_line (Header sec n)) =
    st\<lparr>pa_seen := put sec True (pa_seen st), pa_team := team_of_section s sec\<rparr>"
proof -
  let ?cell = "sec @ '' '' @ count_text ''-'' '' '' (show_nat n) '' '' ''Members''"
  have line: "guild_line (Header sec n) = ''| **'' @ ?cell @ ''**'' @ '' '' @ ''|'' @ '' **1** |''"
    by (simp add: count_text_def)
  have count: "is_count ''-'' '' '' (show_nat n) '' '' ''Members''"
    using show_nat_digits [of n] by (simp add: is_count_def dashes_def member_words_def ws_def)
  then have name: "sectionName ?cell = sec"
    using assms by (intro sectionName_count) (simp_all add: ws_def)
  have "CHR ''*'' \<notin> set ?cell"
    using assms show_nat_digits [of n] digit_not_star by (auto simp: list_all_iff count_text_def)
  then have "match_front teamHeaderRe (guild_line (Header sec n)) = Some [?cell]"
    unfolding line by (rule match_header) (use assms in simp_all)
  then show ?thesis
    using guild_line_trimmed [OF assms] name
    by (simp add: parse_line_def Let_def)
qed

lemma parse_person:
  assumes "item_ok (Person name login slash)"
  shows "parse_line s st (guild_line (Person name login slash)) =
    st\<lparr>pa_rows := pa_rows st @ (if pa_team st = [] then [] else [guild_row (pa_team st) name login])\<rparr>"
proof -
  let ?url = "''https://github.com/'' @ login @ (if slash then ''/'' else [])"
  have line: "guild_line (Person name login slash) = ''| ['' @ name @ '']('' @ ?url @ '')'' @ '' | 0.5 |''"
    by simp
  have "\<not> login_char CHR '')''" by (simp add: login_char_def less_eq_char_def)
  then have "CHR '')'' \<notin> set ?url"
    using assms by (auto simp: list_all_iff)
  then have "match_front memberLinkRe (guild_line (Person name login slash)) = Some [name, ?url]"
    unfolding line using assms by (intro match_person) simp_all
  moreover have "findAll githubUserRe ?url = [[login]]"
    using assms by (intro profile_link) simp_all
  ultimately have row: "parseMemberRow (guild_line (Person name login slash)) = Some (name, login)"
    using assms by (simp add: parseMemberRow_def Let_def)
  have "match_front teamHeaderRe (guild_line (Person name login slash)) = None"
    unfolding line by (rule person_is_no_header)
  with row guild_line_trimmed [OF assms] show ?thesis
    by (auto simp: parse_line_def Let_def)
qed

lemma parse_heading:
  assumes "item_ok (Heading t)"
  shows "parse_line s st (guild_line (Heading t)) = st\<lparr>pa_team := []\<rparr>"
  using guild_line_trimmed [OF assms] by (simp add: parse_line_def)

lemma parse_items:
  assumes "list_all item_ok items"
  shows "pa_rows (foldl (parse_line s) st (map guild_line items)) = pa_rows st @ rows_of s (pa_team st) items"
    and "map_of (pa_seen (foldl (parse_line s) st (map guild_line items))) =
      (\<lambda>sec. if sec \<in> set (sections_of items) then Some True else map_of (pa_seen st) sec)"
  using assms
proof (induction items arbitrary: st)
  case (Cons item items)
  {
    case 1
    with Cons(1) show ?case
      by (cases item) (simp_all add: parse_heading parse_header parse_person del: guild_line.simps)
  next
    case 2
    with Cons(2) show ?case
      by (cases item) (auto simp: parse_heading parse_header parse_person gomap_simps fun_eq_iff simp del: guild_line.simps)
  }
qed simp_all

lemma parse_document:
  assumes "list_all item_ok items" and "items \<noteq> []"
  shows "fst (parse s (join [newline] (map guild_line items))) = rows_of s [] items"
    and "map_of (snd (parse s (join [newline] (map guild_line items)))) sec =
      (if sec \<in> set (sections_of items) then Some True else None)"
proof -
  have "split_on newline (join [newline] (map guild_line items)) = map guild_line items"
    using assms guild_line_one_line by (intro split_join) (auto simp: list_all_iff)
  then show "fst (parse s (join [newline] (map guild_line items))) = rows_of s [] items"
    "map_of (snd (parse s (join [newline] (map guild_line items)))) sec =
      (if sec \<in> set (sections_of items) then Some True else None)"
    by (simp_all add: parse_def Let_def parse_items [OF assms(1)])
qed

lemma missing_document:
  assumes "list_all item_ok items" and "items \<noteq> []"
  shows "missingSections s (snd (parse s (join [newline] (map guild_line items)))) =
    sort (filter (\<lambda>sec. sec \<notin> set (sections_of items)) (map fst (pg_sections s)))"
proof -
  have "filter (\<lambda>sec. map_of (snd (parse s (join [newline] (map guild_line items)))) sec \<noteq> Some True) (map fst (pg_sections s)) =
      filter (\<lambda>sec. sec \<notin> set (sections_of items)) (map fst (pg_sections s))"
    by (rule filter_cong) (simp_all add: parse_document(2) [OF assms])
  then show ?thesis by (simp add: missingSections_def)
qed

section \<open>A sample document\<close>

definition guild_doc :: "guild_item list" where
  "guild_doc = [Heading ''# 1.1 Active Members'', Header ''Teku (Consensys)'' 2,
     Person ''Paul Harris'' ''rolfyone'' True, Person ''Stefan Bratanov'' ''StefanBratanov'' False,
     Header ''Unmapped'' 1, Person ''Nobody'' ''nobody'' False,
     Header ''Reth (Paradigm)'' 1, Person ''joshieDo'' ''joshieDo'' False,
     Heading ''# 1.2 Alumni'', Person ''Former'' ''former'' False]"

definition guild_source :: guild where
  "guild_source = Guild_New ''https://g'' [(''Teku (Consensys)'', ''teku''), (''Reth (Paradigm)'', ''reth''), (''Gone'', ''gone'')] 0"

lemma starts_rune_simps:
  "starts_rune [] s \<longleftrightarrow> False"
  "starts_rune (p # ps) s \<longleftrightarrow> p \<noteq> [] \<and> starts_with p s \<or> starts_rune ps s"
  by (auto simp: starts_rune_def)

lemma guild_doc_ok: "list_all item_ok guild_doc \<and> guild_doc \<noteq> []"
  by (simp add: guild_doc_def trimSpace_iff white_space_def starts_rune_simps login_char_def less_eq_char_def)





end
