(* ===== verification/SystemProps.thy ===== *)
theory SystemProps
  imports Outage ProtocolGuildProps
begin

text \<open>
  Properties of the whole system, over every interleaving of its steps and across crashes of the
  writer: its runs are runs of the cluster, no pod serves an excluded handle, readers that are up
  to date answer alike and as the writer does, and an outage of a source loses nobody.
\<close>

section \<open>Refinement\<close>


section \<open>Exclusion\<close>

lemma excluded_lookup:
  assumes "index_ok cfg i" and "x \<in> set (cf_Exclude cfg)" and "toLower handle = toLower x"
  shows "Lookup i handle = []"
proof -
  have "map_of (ExcludedHandles cfg) (toLower handle) = Some True"
    using assms(2,3) ExcludedHandles_spec [of cfg "toLower handle"] by auto
  with assms(1) show ?thesis
    by (auto simp: Lookup_empty_iff in_index_keys index_ok_def index_wf_shape)
qed

text \<open>
  C6. In every reachable state, after any number of crashes and restarts of the writer, on
  its old disk or a new one, and whatever each reader is doing, no pod finds an excluded
  handle in the index it serves, whatever the casing.
\<close>

theorem excluded_handle_never_served:
  assumes "is_writer cfg" and "runs cfg new_system t"
    and "x \<in> set (cf_Exclude cfg)" and "toLower handle = toLower x"
  shows "(\<forall>w i. sm_writer t = Some w \<and> Store_Get (sy_store (pd_syncer (wr_pod w))) = Some i \<longrightarrow> Lookup i handle = []) \<and>
    (\<forall>n j. Store_Get (po_index (rp_poller (sm_readers t n))) = Some j \<longrightarrow> Lookup j handle = [])"
proof (intro conjI allI impI, elim conjE)
  note ok = system_okD [OF system_ok_reachable [OF assms(2,1)]]
  show "Lookup i handle = []"
    if "sm_writer t = Some w" "Store_Get (sy_store (pd_syncer (wr_pod w))) = Some i" for w i
    using excluded_lookup [OF _ assms(3,4), of i] ok(1) [OF that(1)] that(2)
    by (simp add: writer_ok_def pod_ok_def serving_def)
  show "Lookup j handle = []" if j: "Store_Get (po_index (rp_poller (sm_readers t n))) = Some j" for n j
  proof -
    have "Store_Get (po_index (reader_of (cluster_of t) n)) = Some j"
      using j by (simp add: cluster_of_def)
    from reader_index [OF cluster_ok_reachable [OF ok(3)] this] obtain s where
      s: "s \<in> set (sm_published t)" "index_of s (rp_poller (sm_readers t n))"
      by (auto simp: cluster_of_def)
    then obtain k where "sn_Index s = Some k" "index_ok cfg k"
      using ok(2) by blast
    with s(2) j show ?thesis
      using excluded_lookup [OF norm_index_ok assms(3,4)] by (auto simp: index_of_def)
  qed
qed

section \<open>Answers\<close>

lemma same_content_same_handler:
  assumes "serves p s" and "serves q s"
  shows "reader_handler cfg p = reader_handler cfg q"
proof -
  have "Store_Get (po_index p) = Store_Get (po_index q)" "po_keys p = po_keys q" "po_statuses p = po_statuses q"
    using assms by (auto simp: serves_defs)
  then have "po_index p = po_index q" "po_keys p = po_keys q" "po_statuses p = po_statuses q"
    by (simp_all add: Store_Get_def)
  then show ?thesis by (simp add: reader_handler_def)
qed


lemma generation_unseen:
  assumes "poller_ok db snaps p" and "fresh_generation snap snaps"
  shows "po_lastGen p \<noteq> sn_Generation snap"
  using assms by (auto simp: poller_ok_def fresh_generation_def newPoller_def)


section \<open>An outage\<close>


section \<open>A sample run\<close>

lemma Sync_no_file:
  assumes "Sync now env srcs s fs = (idx, t, states)" and "sy_snapshot s = []"
  shows "states = []"
proof -
  obtain s' mg where all: "fetch_all srcs s = (s', mg)"
    by fastforce
  then have "sy_snapshot s' = []"
    using assms(2) by (metis fetch_all_def fold_fetch_frame(4) fold_merge_source_state fst_conv)
  with assms(1) show ?thesis
    by (auto simp: Sync_def all finish_sync_def Let_def Save_def split: if_splits)
qed

text \<open>A writer that can reach its database comes up and publishes, when its first sync ends.\<close>

lemma healthy_boot:
  assumes "sm_writer s = None" and "sm_db s = Table q" and "connects cfg b" and "cf_SnapshotPath cfg = []"
    and "observe_all (bt_world b) (fst (buildSources (bt_getenv b) cfg)) = Some observed"
    and "list_all (cn_fetch cn) (map fst observed)" and "cn_boot cn b"
    and "pv_marshal (bt_publish b) = None" and "pv_answer (bt_publish b) = Answered"
    and "word_of_int (pv_clock (bt_publish b)) \<notin> insert 0 (set (generations (sm_published s)))"
  obtains p r snap idx where
    "system_step cn cfg s
       (s\<lparr>sm_db := Table (Some r), sm_published := snap # sm_published s, sm_writer := Some (new_writer p)\<rparr>)"
    "row_of snap r" "sn_Generation snap = word_of_int (pv_clock (bt_publish b))" "sn_Index snap = Some idx"
    "pd_syncer p = fst (snd (Sync (bt_synced b) (bt_disk b) (map fst observed)
       (Seed (loadPublishedIndex (bt_load b) (Table q)) (new_syncer cfg)) (sm_disk s)))"
    "Store_Get (sy_store (pd_syncer p)) = Some idx" "pd_sources p = map snd observed"
    "pd_keys p = map_option (Cache_Start (bt_started b) (bt_entries b) (pd_fs p)) (buildKeyCache cfg)"
    "pd_fs p = sm_disk s"
proof -
  have none: "LoadSnapshot e [] fs = Inr None" for e fs
    by (simp add: LoadSnapshot_def)
  obtain p out where start: "startSyncing cfg b (Table q, sm_disk s) = Some (Inr p, out)"
    using start_succeeds [OF assms(3,5)] by blast
  have boots: "boots_with cn cfg (Table q) b (sm_disk s) p out"
    using start assms(5-7) by (simp add: boots_with_def)
  have writer: "is_writer cfg"
    using assms(3) by (simp add: connects_def)
  show thesis
  proof (rule started [OF boots writer])
    fix db' obs states
    assume up: "starts_up cn cfg (Table q) b (sm_disk s) obs (pd_syncer p) states db'"
      and srcs: "pd_sources p = map snd obs" and disk: "pd_fs p = final_state (sm_disk s) states"
      and keys: "pd_keys p = map_option (Cache_Start (bt_started b) (bt_entries b) (pd_fs p)) (buildKeyCache cfg)"
      and out: "out = publish (bt_publish b) (sy_store (pd_syncer p)) (pd_keys p) (Statuses (pd_syncer p)) db'"
    note start = started_up [OF up writer]
    have db: "db' = Table q"
      using start(1) by (simp add: ensureSchema_table)
    have sync: "pd_syncer p = fst (snd (Sync (bt_synced b) (bt_disk b) (map fst obs)
         (Seed (loadPublishedIndex (bt_load b) db') (new_syncer cfg)) (sm_disk s)))"
      using start(7) by (auto simp: restart_from_def recover_def none assms(4))
    have "states = []"
      using start(7) by (auto dest: Sync_no_file simp: assms(4))
    note obs = start(4) and dist = start(6)
    obtain idx where idx: "Store_Get (sy_store (pd_syncer p)) = Some idx"
      using Sync_sets_store [OF dist] sync by (metis option.exhaust)
    let ?snap = "live_snapshot (bt_publish b) idx (pd_keys p) (Statuses (pd_syncer p))"
    obtain r where r: "out = Table (Some r)" "row_of ?snap r"
      using publish_healthy [OF idx assms(8,9)] out db by metis
    have gen: "sn_Generation ?snap = word_of_int (pv_clock (bt_publish b))" "sn_Index ?snap = Some idx"
      by (simp_all add: live_snapshot_def)
    have "fresh_generation ?snap (sm_published s)"
      using assms(10) by (simp add: fresh_generation_def gen)
    from system_step.boots [OF assms(1) _ idx refl this] boots assms(2) r(1)
    have "system_step cn cfg s
        (s\<lparr>sm_db := Table (Some r), sm_published := ?snap # sm_published s, sm_writer := Some (new_writer p)\<rparr>)"
      by metis
    with that r(2) gen sync idx obs assms(5) db srcs keys disk \<open>states = []\<close> show thesis by simp
  qed
qed

lemma system_polls_many:
  assumes "(reader_step (sm_db s))\<^sup>*\<^sup>* (sm_readers s i) rd"
  shows "(system_step cn cfg)\<^sup>*\<^sup>* s (s\<lparr>sm_readers := (sm_readers s)(i := rd)\<rparr>)"
  using assms
proof (induction rule: rtranclp_induct)
  case base
  then show ?case by simp
next
  case (step rd rd')
  have "system_step cn cfg (s\<lparr>sm_readers := (sm_readers s)(i := rd)\<rparr>) (s\<lparr>sm_readers := (sm_readers s)(i := rd')\<rparr>)"
    using system_step.polls [of "s\<lparr>sm_readers := (sm_readers s)(i := rd)\<rparr>" i rd'] step.hyps(2) by simp
  with step.IH show ?case by (rule rtranclp.rtrancl_into_rtrancl)
qed

text \<open>A new reader loads the row and rests.\<close>

lemma new_reader_loads:
  assumes "sm_db s = Table (Some r)" and "row_of snap r" and "sn_Index snap \<noteq> None" and "pr_Generation r \<noteq> 0"
    and "sm_readers s i = new_reading"
  obtains p where "(system_step cn cfg)\<^sup>*\<^sup>* s
      (s\<lparr>sm_readers := (sm_readers s)(i := \<lparr>rp_poller = p, rp_phase = Resting\<rparr>)\<rparr>)"
    "serves p snap" "po_lastGen p = pr_Generation r"
proof -
  have "po_lastGen newPoller \<noteq> pr_Generation r"
    using assms(4) by (simp add: newPoller_def)
  from whole_load [OF assms(2) this] have
    "(reader_step (sm_db s))\<^sup>*\<^sup>* (sm_readers s i)
       \<lparr>rp_poller = swap_all (pr_Generation r) (norm_snapshot snap) all_swaps newPoller, rp_phase = Resting\<rparr>"
    by (simp add: assms(1,5) new_reading_def)
  from that [OF system_polls_many [OF this] swap_all_serves [OF assms(3)]] show thesis .
qed

definition sample_doc :: "guild_item list" where
  "sample_doc = [Header ''Reth'' 1, Person ''Bob'' ''bob'' False]"

definition first_boot :: boot where
  "first_boot = (sample_boot Answered)\<lparr>bt_world := \<lparr>wd_http = (\<lambda>_. Response 200 (join [newline] (map guild_line sample_doc)) None),
     wd_github = two_members, wd_started = 3, wd_finished = 4\<rparr>\<rparr>"

definition second_boot :: boot where
  "second_boot = (sample_boot Answered)\<lparr>bt_entries := healthy_reads, bt_publish := later_publication\<rparr>"

lemma sample_boots: "connects sample_config first_boot" "connects sample_config second_boot"
    "bt_publish first_boot = sample_publication" "bt_publish second_boot = later_publication"
    "bt_world second_boot = bt_world (sample_boot Answered)" "bt_load second_boot = Answered"
    "cf_SnapshotPath sample_config = []" "bt_entries second_boot = healthy_reads"
  using sample_connects [of Answered]
  by (simp_all add: connects_def first_boot_def second_boot_def sample_boot_def sample_config_def Default_def)

lemma sample_healthy: "pv_marshal sample_publication = None" "pv_answer sample_publication = Answered"
    "pv_marshal later_publication = None" "pv_answer later_publication = Answered"
    "pv_clock sample_publication = 7" "pv_clock later_publication = 9"
  by (simp_all add: sample_publication_def later_publication_def)

lemma sample_doc_ok: "list_all item_ok sample_doc \<and> sample_doc \<noteq> []"
  by (simp add: sample_doc_def trimSpace_iff white_space_def starts_rune_simps login_char_def less_eq_char_def)

lemma first_fetch: "\<exists>s'. Guild_Fetch (wd_http (bt_world first_boot)) sample_guild = (Inr [guild_row ''reth'' ''Bob'' ''bob''], s')"
proof -
  let ?doc = "join [newline] (map guild_line sample_doc)"
  have "fst (parse sample_guild ?doc) = [guild_row ''reth'' ''Bob'' ''bob'']"
    using parse_document(1) [of sample_doc sample_guild] sample_doc_ok
    by (simp add: sample_doc_def sample_guild_def Guild_New_def team_of_section_def del: guild_line.simps join.simps)
  moreover have "pg_maxMissing sample_guild = 0"
    by (simp add: sample_guild_def Guild_New_def)
  ultimately show ?thesis
    by (simp add: first_boot_def Guild_Fetch_def Let_def split_def)
qed

lemma first_observed:
  "\<exists>f s'. observe_all (bt_world first_boot) (fst (buildSources (bt_getenv first_boot) sample_config)) = Some [(f, s')] \<and>
     fe_Name f = NameProtocolGuild \<and> fe_Result f = Inr [guild_row ''reth'' ''Bob'' ''bob'']"
  using first_fetch by (auto simp: sample_sources observe_all_def fetched_from_def)

lemma first_sync_keeps:
  assumes f: "fe_Name f = NameProtocolGuild" "fe_Result f = Inr [guild_row ''reth'' ''Bob'' ''bob'']"
  shows "Store_Get (sy_store (fst (snd (Sync now env [f] (new_syncer sample_config) fs)))) = Some i \<Longrightarrow>
      listed NameProtocolGuild ''reth'' ''bob'' i"
    and "remembers NameProtocolGuild ''reth'' ''bob'' (fst (snd (Sync now env [f] (new_syncer sample_config) fs)))"
proof -
  let ?s = "new_syncer sample_config" and ?row = "guild_row ''reth'' ''Bob'' ''bob''"
  have floor: "floor_for ?s NameProtocolGuild = \<lparr>fl_MinMembers = 0, fl_MinTeams = 0\<rparr>"
    by (simp add: floor_for_def new_syncer_def New_def floors_of_def sample_config_def Default_def)
  have accepted: "accepted ?s f = Some [?row]"
    by (simp add: accepted_def f floor)
  have contr: "contributed ?s [f] = drop_excluded ?s [?row]"
    by (simp add: contributed_def contribution_def accepted)
  have "toLower ''bob'' = ''bob''"
    by code_simp
  then have row: "belongs NameProtocolGuild ''reth'' ''bob'' ?row"
    by (simp add: belongs_def guild_row_def)
  have "sy_exclude ?s = ExcludedHandles sample_config" and "Store_Get (sy_store ?s) = None"
    by (simp_all add: new_syncer_def New_def)
  then show "listed NameProtocolGuild ''reth'' ''bob'' i"
    if "Store_Get (sy_store (fst (snd (Sync now env [f] ?s fs)))) = Some i"
    using that bob_kept row Build_listed [of NameProtocolGuild "''reth''" "''bob''" "[?row]" ?s now]
    by (auto simp: Sync_store contr)
  have "lastGoodFor (fst (snd (Sync now env [f] ?s fs))) NameProtocolGuild = [?row]"
    by (simp add: lastGoodFor_def Sync_fields fetchOne_lastGood accepted gomap_simps f)
  with row show "remembers NameProtocolGuild ''reth'' ''bob'' (fst (snd (Sync now env [f] ?s fs)))"
    by (simp add: remembers_def)
qed

lemma sample_key_cache:
  obtains c where "buildKeyCache sample_config = Some c"
  using that by (simp add: buildKeyCache_def Let_def sample_config_def Default_def)

text \<open>A healthy writer that publishes once.\<close>

lemma sample_up:
  obtains p c r snap i where
    "runs sample_config new_system (new_system\<lparr>sm_db := Table (Some r), sm_published := [snap], sm_writer := Some (new_writer p)\<rparr>)"
    "row_of snap r" "sn_Generation snap = 7" "sn_Index snap = Some i" "Store_Get (sy_store (pd_syncer p)) = Some i"
    "listed NameProtocolGuild ''reth'' ''bob'' i" "remembers NameProtocolGuild ''reth'' ''bob'' (pd_syncer p)"
    "NameProtocolGuild \<in> Source_Name ` set (pd_sources p)" "pd_keys p = Some c" "pd_fs p = []"
proof -
  let ?step = "system_step anything sample_config" and ?s = "new_system\<lparr>sm_db := Table None\<rparr>"
  have "?step new_system ?s"
    using system_step.migrates [of anything sample_config new_system Answered]
    by (simp add: new_system_def Pg_ensureSchema_def)
  moreover
  obtain f s' where obs: "observe_all (bt_world first_boot) (fst (buildSources (bt_getenv first_boot) sample_config)) = Some [(f, s')]"
    and f: "fe_Name f = NameProtocolGuild" "fe_Result f = Inr [guild_row ''reth'' ''Bob'' ''bob'']"
    using first_observed by blast
  obtain p r snap i where boot: "?step ?s
       (?s\<lparr>sm_db := Table (Some r), sm_published := snap # sm_published ?s, sm_writer := Some (new_writer p)\<rparr>)"
    and row: "row_of snap r" "sn_Generation snap = 7" "sn_Index snap = Some i"
    and sync: "pd_syncer p = fst (snd (Sync (bt_synced first_boot) (bt_disk first_boot) [f]
       (Seed (loadPublishedIndex (bt_load first_boot) (Table None)) (new_syncer sample_config)) []))"
    and i: "Store_Get (sy_store (pd_syncer p)) = Some i" and srcs: "pd_sources p = [s']"
    and keys: "pd_keys p = map_option (Cache_Start (bt_started first_boot) (bt_entries first_boot) (pd_fs p)) (buildKeyCache sample_config)"
    and disk: "pd_fs p = []"
    by (rule healthy_boot [of ?s None sample_config first_boot "[(f, s')]" anything])
      (use obs in \<open>simp_all add: new_system_def sample_boots sample_healthy\<close>)
  have "runs sample_config new_system (new_system\<lparr>sm_db := Table (Some r), sm_published := [snap], sm_writer := Some (new_writer p)\<rparr>)"
    using calculation boot by (simp add: new_system_def)
  moreover have "Seed (loadPublishedIndex (bt_load first_boot) (Table None)) (new_syncer sample_config) = new_syncer sample_config"
    by (simp add: first_boot_def sample_boot_def loadPublishedIndex_def answered_queries Seed_def)
  then have "listed NameProtocolGuild ''reth'' ''bob'' i" "remembers NameProtocolGuild ''reth'' ''bob'' (pd_syncer p)"
    using first_sync_keeps [OF f] i sync by simp_all
  moreover have "NameProtocolGuild \<in> Source_Name ` set (pd_sources p)"
    using observe_all_Some(3) [OF obs] by (simp add: srcs sample_sources)
  moreover obtain c where "pd_keys p = Some c"
    using keys sample_key_cache by (metis option.simps(9))
  ultimately show thesis
    using that row i disk by blast
qed

text \<open>It crashes, and its disk is lost.\<close>

lemma sample_crash:
  obtains s r snap i where "runs sample_config new_system s" "sm_writer s = None" "sm_db s = Table (Some r)"
    "sm_published s = [snap]" "sm_disk s = []" "sm_readers s = (\<lambda>_. new_reading)" "row_of snap r" "sn_Generation snap = 7"
    "sn_Index snap = Some i" "listed NameProtocolGuild ''reth'' ''bob'' i"
proof (rule sample_up)
  fix p c r snap i
  let ?step = "system_step anything sample_config"
  let ?up = "new_system\<lparr>sm_db := Table (Some r), sm_published := [snap], sm_writer := Some (new_writer p)\<rparr>"
  let ?down = "?up\<lparr>sm_writer := None, sm_disk := pd_fs p\<rparr>" and ?t = "?up\<lparr>sm_writer := None\<rparr>"
  assume up: "runs sample_config new_system ?up"
    and row: "row_of snap r" "sn_Generation snap = 7" "sn_Index snap = Some i" "listed NameProtocolGuild ''reth'' ''bob'' i"
  have "?step ?up ?down"
    using system_step.crashes [of ?up "new_writer p", OF _ dies_at_rest] by (simp add: new_writer_def)
  moreover have "?step ?down ?t"
    using system_step.loses_disk [of ?down anything sample_config] by (simp add: new_system_def)
  ultimately have "runs sample_config new_system ?t"
    using up by (meson rtranclp.rtrancl_into_rtrancl)
  with that [of ?t r snap i] row show thesis
    by (simp add: new_system_def)
qed

text \<open>The source is unreachable when the writer comes up again, and two readers poll.\<close>

lemma sample_restart:
  assumes s: "sm_writer s = None" "sm_db s = Table (Some r1)" "sm_published s = [snap1]" "sn_Generation snap1 = 7"
      "sm_readers s = (\<lambda>_. new_reading)"
    and "cn_fetch cn guild_unreachable" and "cn_boot cn second_boot"
  obtains t w r where "(system_step cn sample_config)\<^sup>*\<^sup>* s t" "sm_writer t = Some w" "sm_db t = Table (Some r)"
    "generations (sm_published t) = [9, 7]" "pr_Generation r = 9"
    "\<And>n. n < 2 \<Longrightarrow> between_loads (sm_readers t n) \<and> po_lastGen (rp_poller (sm_readers t n)) = pr_Generation r"
proof -
  let ?step = "system_step cn sample_config"
  obtain p r snap i where boot: "?step s
       (s\<lparr>sm_db := Table (Some r), sm_published := snap # sm_published s, sm_writer := Some (new_writer p)\<rparr>)"
    and row: "row_of snap r" "sn_Generation snap = 9" "sn_Index snap = Some i"
    by (rule healthy_boot [of s "Some r1" sample_config second_boot "[(guild_unreachable, Guild_source sample_guild)]" cn])
      (use assms sample_observed [of Answered "bt_getenv second_boot"] in \<open>simp_all add: sample_boots sample_healthy\<close>)
  let ?t = "s\<lparr>sm_db := Table (Some r), sm_published := [snap, snap1], sm_writer := Some (new_writer p)\<rparr>"
  have gen: "pr_Generation r = 9"
    using row(1,2) by (simp add: row_of_def)
  obtain q0 where q0: "?step\<^sup>*\<^sup>* ?t (?t\<lparr>sm_readers := (sm_readers ?t)(0 := \<lparr>rp_poller = q0, rp_phase = Resting\<rparr>)\<rparr>)"
    "po_lastGen q0 = 9"
    by (rule new_reader_loads [of ?t r snap 0]) (use row gen s in simp_all)
  let ?u = "?t\<lparr>sm_readers := (sm_readers ?t)(0 := \<lparr>rp_poller = q0, rp_phase = Resting\<rparr>)\<rparr>"
  obtain q1 where q1: "?step\<^sup>*\<^sup>* ?u (?u\<lparr>sm_readers := (sm_readers ?u)(1 := \<lparr>rp_poller = q1, rp_phase = Resting\<rparr>)\<rparr>)"
    "po_lastGen q1 = 9"
    by (rule new_reader_loads [of ?u r snap 1]) (use row gen s in simp_all)
  let ?v = "?u\<lparr>sm_readers := (sm_readers ?u)(1 := \<lparr>rp_poller = q1, rp_phase = Resting\<rparr>)\<rparr>"
  have "?step s ?t"
    using boot s(3) by simp
  then have "?step\<^sup>*\<^sup>* s ?v"
    using q0(1) q1(1) by (meson converse_rtranclp_into_rtranclp rtranclp_trans)
  moreover have "between_loads (sm_readers ?v n) \<and> po_lastGen (rp_poller (sm_readers ?v n)) = pr_Generation r" if "n < 2" for n
    using that q0(2) q1(2) gen by (auto simp: between_loads_def less_2_cases_iff)
  ultimately show thesis
    using that [of ?v "new_writer p" r] s(4) row(2) gen by simp
qed

lemma sample_row:
  assumes "sm_db s = Table (Some r)" and "row_of snap r" and "sn_Index snap = Some i"
    and "listed NameProtocolGuild ''reth'' ''bob'' i"
  shows "loadPublishedIndex Answered (sm_db s) = Some (norm_index i)" and "lists NameProtocolGuild ''reth'' ''bob'' (norm_index i)"
  using assms norm_listed by (auto simp: loadPublishedIndex_def answered_queries row_of_def listed_def)

lemma sample_run:
  obtains s t w r i where "runs sample_config new_system s" "sm_writer s = None" "sm_disk s = []"
    "loadPublishedIndex Answered (sm_db s) = Some i" "lists NameProtocolGuild ''reth'' ''bob'' i"
    "(system_step (source_outage NameProtocolGuild) sample_config)\<^sup>*\<^sup>* s t"
    "sm_writer t = Some w" "sm_db t = Table (Some r)" "generations (sm_published t) = [9, 7]"
    "\<And>n. n < 2 \<Longrightarrow> between_loads (sm_readers t n) \<and> po_lastGen (rp_poller (sm_readers t n)) = pr_Generation r"
proof (rule sample_crash)
  fix s r1 snap1 i1
  assume s: "runs sample_config new_system s" "sm_writer s = None" "sm_db s = Table (Some r1)"
      "sm_published s = [snap1]" "sm_readers s = (\<lambda>_. new_reading)" "sm_disk s = []"
    and row: "row_of snap1 r1" "sn_Generation snap1 = 7" "sn_Index snap1 = Some i1"
      "listed NameProtocolGuild ''reth'' ''bob'' i1"
  show thesis
    by (rule sample_restart [OF s(2-4) row(2) s(5), of "source_outage NameProtocolGuild"])
      (use that [OF s(1,2,6) sample_row [OF s(3) row(1,3,4)]] in \<open>auto simp: outage_def guild_unreachable_simps sample_boots\<close>)
qed

lemma sample_writer: "is_writer sample_config"
  using sample_connects [of Answered] by (simp add: connects_def)


lemma sample_run_reaches:
  obtains t w r where "runs sample_config new_system t" "sm_writer t = Some w" "sm_db t = Table (Some r)"
    "generations (sm_published t) = [9, 7]"
    "\<And>n. n < 2 \<Longrightarrow> between_loads (sm_readers t n) \<and> po_lastGen (rp_poller (sm_readers t n)) = pr_Generation r"
proof (rule sample_run)
  fix s t w r
  assume "runs sample_config new_system s" and "(system_step (source_outage NameProtocolGuild) sample_config)\<^sup>*\<^sup>* s t"
    and rest: "sm_writer t = Some w" "sm_db t = Table (Some r)" "generations (sm_published t) = [9, 7]"
      "\<And>n. n < 2 \<Longrightarrow> between_loads (sm_readers t n) \<and> po_lastGen (rp_poller (sm_readers t n)) = pr_Generation r"
  then have "runs sample_config new_system t"
    using runs_any rtranclp_trans by metis
  with that rest show thesis by blast
qed

lemma served_index:
  assumes "is_writer cfg" and "runs cfg new_system t" and "sm_writer t = Some w"
  obtains i where "Store_Get (sy_store (pd_syncer (wr_pod w))) = Some i"
  using system_okD(1) [OF system_ok_reachable [OF assms(2,1)] assms(3)]
  by (auto simp: writer_ok_def pod_ok_def serving_def)

theorem excluded_handle_never_served_sample:
  "\<exists>(t :: system) w i. sm_writer t = Some w \<and> Store_Get (sy_store (pd_syncer (wr_pod w))) = Some i \<and> Lookup i ''eve'' = []"
proof (rule sample_run_reaches)
  fix t w
  assume t: "runs sample_config new_system t" "sm_writer t = Some w"
  have eve: "''Eve'' \<in> set (cf_Exclude sample_config)"
    by (simp add: sample_config_def)
  have same: "toLower ''eve'' = toLower ''Eve''"
    by code_simp
  show ?thesis
    using excluded_handle_never_served [OF sample_writer t(1) eve same] served_index [OF sample_writer t] t(2) by metis
qed




end
