(* ===== verification/KeysProps.thy ===== *)
theory KeysProps
  imports Keys IndexProps
begin

text \<open>
  Properties of \<open>internal/keys\<close>: what a request yields, what a failing upstream can and
  cannot change, readiness, the pace, and the cache directory across crashes and restarts.
\<close>

section \<open>Requests\<close>



lemma pathEscape_char:
  assumes "c \<in> set (pathEscape s)"
  shows "unreserved c \<or> c = CHR 0x25"
proof -
  have "unreserved (upper_hex n)" if "n < 16" for n
  proof -
    have "n \<in> set [0..<16]" using that by simp
    moreover have "\<forall>n\<in>set [0..<16]. unreserved (upper_hex n)" by code_simp
    ultimately show ?thesis by blast
  qed
  moreover have "of_char d div 16 < (16::nat)" for d :: char
    using nat_of_char_less_256 [of d] by (simp add: less_mult_imp_div_less)
  ultimately show ?thesis
    using assms by (auto simp: pathEscape_def split: if_splits)
qed

text \<open>The escaped handle is one path segment of the request.\<close>

lemma request_stays_on_path:
  "\<exists>name. endpoint base handle = base @ ''/'' @ name @ ''.keys'' \<and>
     CHR ''/'' \<notin> set name \<and> CHR ''?'' \<notin> set name \<and> CHR ''#'' \<notin> set name"
proof -
  have "c \<notin> set (pathEscape handle)" if "c \<in> set ''/?#''" for c
    using that pathEscape_char [of c handle] by (auto simp: unreserved_def less_eq_char_def)
  then show ?thesis
    by (auto simp: endpoint_def)
qed

section \<open>A failing upstream\<close>

text \<open>A fetch that fails records the error and changes nothing else.\<close>

lemma failed_fetch_keeps_keys:
  assumes "Cache_fetchOne env h (c, fs) = (e, c', states)"
    and "\<not> healthy_answer (fv_http env (endpoint (kc_BaseURL (ca_cfg c)) h))"
  shows "en_LastError e \<noteq> [] \<and> en_LastAttempt e = fv_now env \<and> states = [] \<and>
    Cache_Get c' h = Some e \<and>
    (\<forall>old. Cache_Get c h = Some old \<longrightarrow> en_Keys e = en_Keys old \<and> en_FetchedAt e = en_FetchedAt old) \<and>
    (toLower g \<noteq> toLower h \<longrightarrow> Cache_Get c' g = Cache_Get c g)"
proof -
  obtain err where err: "Cache_fetch (kc_BaseURL (ca_cfg c)) (fv_http env) h = Inl err"
    using assms(2) Cache_fetch_ok by (metis sum.exhaust)
  with Cache_fetchOne_entry [OF assms(1)] Cache_fetch_error [OF err] show ?thesis
    using Cache_Get_fetchOne [OF assms(1)] Cache_fetchOne_fields(7) [OF assms(1)] by auto
qed

lemma fetchOne_keeps:
  assumes "Cache_fetchOne env h (c, fs) = (e, c', states)"
    and "\<not> healthy_answer (fv_http env (endpoint (kc_BaseURL (ca_cfg c)) h))"
    and "Cache_Get c g = Some old"
  shows "\<exists>new. Cache_Get c' g = Some new \<and> en_Keys new = en_Keys old \<and> en_FetchedAt new = en_FetchedAt old"
proof (cases "toLower g = toLower h")
  case True
  obtain err where "Cache_fetch (kc_BaseURL (ca_cfg c)) (fv_http env) h = Inl err"
    using assms(2) Cache_fetch_ok by (metis sum.exhaust)
  moreover have "Cache_Get c h = Some old"
    using assms(3) True by (simp add: Cache_Get_def)
  ultimately show ?thesis
    using Cache_fetchOne_entry [OF assms(1)] Cache_Get_fetchOne [OF assms(1)] True by simp
next
  case False
  then show ?thesis
    using assms(3) Cache_Get_fetchOne [OF assms(1)] by simp
qed

lemma prune_Get:
  "prune rm handles (c, fs) = (c', fs') \<Longrightarrow>
   Cache_Get c' h = (if toLower h \<in> toLower ` set handles then Cache_Get c h else None)"
  by (auto simp: prune_def Let_def Cache_Get_def gomap_simps)

lemma Cache_Get_update [simp]:
  "Cache_Get (c\<lparr>ca_warmed := b\<rparr>) = Cache_Get c" "Cache_Get (c\<lparr>ca_pace := d\<rparr>) = Cache_Get c"
  "Cache_Get (c\<lparr>ca_lastCycle := t\<rparr>) = Cache_Get c"
  by (simp_all add: Cache_Get_def [abs_def])

definition upstream_down :: "fetch_env \<Rightarrow> bool" where
  "upstream_down env \<longleftrightarrow> (\<forall>url. \<not> healthy_answer (fv_http env url))"

definition wants :: "string \<Rightarrow> string list \<Rightarrow> bool" where
  "wants h handles \<longleftrightarrow> toLower h \<in> toLower ` set handles"

definition holds_keys :: "string \<Rightarrow> string list \<Rightarrow> time \<Rightarrow> walker \<Rightarrow> bool" where
  "holds_keys h ks t w \<longleftrightarrow> (case w of (p, c, fs) \<Rightarrow>
     case Cache_Get c h of None \<Rightarrow> False | Some e \<Rightarrow> en_Keys e = ks \<and> en_FetchedAt e = t)"

lemma Cache_RefreshE:
  assumes "Cache_Refresh env h (c, fs) = (e, c', fs')"
  obtains states where "Cache_fetchOne env h (c, fs) = (e, c', states)" "fs' = final_state fs states"
  using assms by (auto simp: Cache_Refresh_def split: prod.splits)

lemma outage_step:
  "walk_step upstream_down (wants h) w w' \<Longrightarrow> holds_keys h ks t w \<Longrightarrow> holds_keys h ks t w'"
proof (induction rule: walk_step.induct)
  case (nothing_to_fetch rm c fs c' fs')
  then show ?case by (simp add: wants_def)
next
  case (begin_pass handles rm c fs c' fs' delay)
  then show ?case
    by (auto simp: wants_def holds_keys_def prune_Get [OF begin_pass(3)])
next
  case (fetch_next env g c fs e c' states before todo delay)
  then show ?case
    using fetchOne_keeps [OF fetch_next(2), of h]
    by (fastforce simp: upstream_down_def holds_keys_def split: option.splits)
next
  case (handler_refresh env g c fs e c' fs' p)
  then show ?case
    using fetchOne_keeps [of env g c fs e c' _ h]
    by (elim Cache_RefreshE) (fastforce simp: upstream_down_def holds_keys_def split: option.splits)
qed (auto simp: holds_keys_def)

text \<open>
  As long as the index still lists a handle, its cached keys and their fetch time
  survive any number of walker and request steps while GitHub does not answer.
\<close>

lemma outage_never_drops_keys:
  assumes "(walk_step upstream_down (wants h))\<^sup>*\<^sup>* (p, c, fs) (p', c', fs')"
    and "Cache_Get c h = Some e"
  shows "\<exists>e'. Cache_Get c' h = Some e' \<and> en_Keys e' = en_Keys e \<and> en_FetchedAt e' = en_FetchedAt e"
proof -
  have "holds_keys h (en_Keys e) (en_FetchedAt e) (p', c', fs')"
    using assms(1)
  proof (induction rule: rtranclp_induct)
    case base
    then show ?case using assms(2) by (simp add: holds_keys_def)
  next
    case (step x y)
    then show ?case by (blast intro: outage_step)
  qed
  then show ?thesis
    by (auto simp: holds_keys_def split: option.splits)
qed

section \<open>Readiness\<close>

text \<open>In a pass, every handle already visited has an entry.\<close>

definition visited :: "(string list \<Rightarrow> bool) \<Rightarrow> walker \<Rightarrow> bool" where
  "visited desired w \<longleftrightarrow> (case w of (p, c, fs) \<Rightarrow>
     case p of Pass before todo delay \<Rightarrow> desired (before @ todo) \<and> list_all (\<lambda>h. Cache_Get c h \<noteq> None) before
     | _ \<Rightarrow> True)"

lemma fetchOne_Get_mono:
  "Cache_fetchOne env h (c, fs) = (e, c', states) \<Longrightarrow> Cache_Get c g \<noteq> None \<Longrightarrow> Cache_Get c' g \<noteq> None"
  by (simp add: Cache_Get_fetchOne)

lemma visited_step: "walk_step world desired w w' \<Longrightarrow> visited desired w \<Longrightarrow> visited desired w'"
proof (induction rule: walk_step.induct)
  case (fetch_next env g c fs e c' states before todo delay)
  then show ?case
    by (auto simp: visited_def list_all_iff Cache_Get_fetchOne [OF fetch_next(2)])
next
  case (handler_refresh env g c fs e c' fs' p)
  then show ?case
    by (elim Cache_RefreshE) (auto simp: visited_def list_all_iff Cache_Get_fetchOne split: phase.splits)
qed (auto simp: visited_def)

lemma visited_reachable:
  "(walk_step world desired)\<^sup>*\<^sup>* (Top, c, fs) w \<Longrightarrow> visited desired w"
  by (induction rule: rtranclp_induct) (auto simp: visited_def [of _ "(Top, c, fs)"] intro: visited_step)

lemma step_warms:
  "walk_step world desired w w' \<Longrightarrow> visited desired w \<Longrightarrow> \<not> ca_warmed (fst (snd w)) \<Longrightarrow> ca_warmed (fst (snd w')) \<Longrightarrow>
   (\<exists>before delay. fst w = Pass before [] delay \<and> desired before \<and> list_all (\<lambda>h. Cache_Get (fst (snd w')) h \<noteq> None) before) \<or>
   ca_entries (fst (snd w')) = []"
proof (induction rule: walk_step.induct)
  case (nothing_to_fetch rm c fs c' fs')
  then show ?case by (auto simp: prune_def Let_def)
next
  case (begin_pass handles rm c fs c' fs' delay)
  then show ?case by (auto simp: prune_def Let_def)
next
  case (fetch_next env g c fs e c' states before todo delay)
  then show ?case using Cache_fetchOne_fields(3) [OF fetch_next(2)] by simp
next
  case (handler_refresh env g c fs e c' fs' p)
  then show ?case by (elim Cache_RefreshE) (auto dest: Cache_fetchOne_fields(3))
qed (auto simp: visited_def)


section \<open>The pace\<close>

text \<open>
  C30. The delay between two fetches never falls below the minimal delay; when it exceeds
  it, a pass fits the refresh interval and is spread over it to within one nanosecond per
  handle.
\<close>

theorem pace_is_bounded:
  assumes "0 < n" and "0 \<le> ca_minDelay c"
  shows "ca_minDelay c \<le> paceFor c n \<and>
    (paceFor c n \<noteq> ca_minDelay c \<longrightarrow>
       n * paceFor c n \<le> kc_RefreshInterval (ca_cfg c) \<and>
       kc_RefreshInterval (ca_cfg c) < n * (paceFor c n + 1))"
proof -
  let ?i = "kc_RefreshInterval (ca_cfg c)"
  have quot: "n * (?i sdiv n) \<le> ?i \<and> ?i < n * (?i sdiv n + 1)" if "0 < ?i sdiv n"
  proof -
    have "0 < ?i"
    proof (rule ccontr)
      assume "\<not> 0 < ?i"
      then have "?i sdiv n \<le> 0"
        using assms(1) by (auto simp: signed_divide_int_def sgn_if div_int_pos_iff)
      with that show False by simp
    qed
    then have "?i sdiv n = ?i div n"
      using assms(1) by (simp add: signed_divide_int_def)
    moreover have "n * (?i div n) + ?i mod n = ?i" "0 \<le> ?i mod n" "?i mod n < n"
      using assms(1) by simp_all
    ultimately show ?thesis
      by (simp only: distrib_left) linarith
  qed
  show ?thesis
  proof (cases "ca_minDelay c < ?i sdiv n")
    case True
    then show ?thesis
      using quot assms by (simp add: paceFor_def)
  next
    case False
    then show ?thesis
      using assms(1) by (simp add: paceFor_def max_def)
  qed
qed

text \<open>
  The minimal delay of a cache is the largest number of nanoseconds that allows the
  configured number of requests per second.
\<close>

lemma request_rate_ceiling:
  assumes "0 < kc_MaxRequestsPerSecond cfg"
  shows "of_int (ca_minDelay (Cache_New cfg)) * kc_MaxRequestsPerSecond cfg \<le> of_int second_ns \<and>
    of_int second_ns < (of_int (ca_minDelay (Cache_New cfg)) + 1) * kc_MaxRequestsPerSecond cfg"
proof -
  let ?r = "kc_MaxRequestsPerSecond cfg"
  have "of_int \<lfloor>of_int second_ns / ?r\<rfloor> * ?r \<le> of_int second_ns / ?r * ?r"
    using assms by (intro mult_right_mono) simp_all
  moreover have "of_int second_ns / ?r * ?r < (of_int \<lfloor>of_int second_ns / ?r\<rfloor> + 1) * ?r"
    using assms by (intro mult_strict_right_mono) (simp_all, linarith)
  ultimately show ?thesis
    using assms by (simp add: Cache_New_def Let_def)
qed

section \<open>The cache directory\<close>

text \<open>\<open>os.CreateTemp\<close> puts decimal digits in the place of the star.\<close>

definition digits_only :: "string \<Rightarrow> bool" where
  "digits_only s \<longleftrightarrow> list_all (\<lambda>c. CHR ''0'' \<le> c \<and> c \<le> CHR ''9'') s"

definition temp_digits :: "write_env \<Rightarrow> bool" where
  "temp_digits env \<longleftrightarrow> (case we_create env of Inl _ \<Rightarrow> True | Inr rnd \<Rightarrow> digits_only rnd)"

lemma temp_not_json: "digits_only rnd \<Longrightarrow> \<not> has_suffix (name @ ''.tmp-'' @ rnd) entryFileExt"
  by (cases rnd rule: rev_cases)
    (auto simp: has_suffix_iff entryFileExt_def digits_only_def less_eq_char_def)

lemma writeEntry_steps:
  assumes "st \<in> set (snd (writeEntry env dir key e fs))"
  obtains name where "dir \<noteq> []" "entryFileName key = Some name"
    "st \<in> set (snd (write_temp_rename env (entry_path dir name) (Doc (enc_key_entry e)) fs))"
  using assms by (auto simp: writeEntry_def split: if_splits option.splits)

lemma writeEntry_gomap: "gomap fs \<Longrightarrow> st \<in> set (fs # snd (writeEntry env dir key e fs)) \<Longrightarrow> gomap st"
  by (auto elim!: writeEntry_steps intro: write_temp_rename_gomap)

text \<open>A file of the directory is, at every moment of a write, the old one, the new one, or a temporary file.\<close>

lemma writeEntry_file:
  assumes "temp_digits env" and "st \<in> set (fs # snd (writeEntry env dir key e fs))"
    and "has_suffix name entryFileExt"
  shows "map_of st (entry_path dir name) = map_of fs (entry_path dir name) \<or>
    entryFileName key = Some name \<and> map_of st (entry_path dir name) = Some (Doc (enc_key_entry e))"
proof (cases "st = fs")
  case False
  then obtain target where target: "dir \<noteq> []" "entryFileName key = Some target"
    "st \<in> set (snd (write_temp_rename env (entry_path dir target) (Doc (enc_key_entry e)) fs))"
    using assms(2) by (auto elim: writeEntry_steps)
  show ?thesis
  proof (cases "name = target")
    case True
    then show ?thesis using write_temp_rename_target [OF target(3)] target(2) by auto
  next
    case neq: False
    have "entry_path dir name \<noteq> temp_name (entry_path dir target) rnd" if "we_create env = Inr rnd" for rnd
      using that assms(1,3) temp_not_json [of rnd target]
      by (auto simp: temp_digits_def temp_name_def entry_path_def)
    then show ?thesis
      using write_temp_rename_frame [OF target(3)] neq by simp
  qed
qed simp

lemma readDir_loadable:
  assumes "gomap fs"
  shows "list_all loadable_file (readDir dir fs) \<longleftrightarrow>
    (\<forall>name d. CHR ''/'' \<notin> set name \<and> map_of fs (entry_path dir name) = Some d \<longrightarrow> loadable_file (name, d))"
  using assms by (auto simp: list_all_iff set_readDir gomap_in_set)

lemma writeEntry_loads:
  assumes "gomap fs" and "cache_loads dir fs" and "temp_digits env"
    and "st \<in> set (fs # snd (writeEntry env dir key e fs))"
  shows "cache_loads dir st"
proof (cases "dir = []")
  case True
  then show ?thesis by (simp add: cache_loads_def loadCache_def)
next
  case False
  have old: "loadable_file (name, d)"
    if "CHR ''/'' \<notin> set name" "map_of fs (entry_path dir name) = Some d" for name d
    using that assms(1,2) False by (auto simp: cache_loads_iff readDir_loadable)
  have "loadable_file (name, d)"
    if named: "CHR ''/'' \<notin> set name" "map_of st (entry_path dir name) = Some d" for name d
  proof (cases "has_suffix name entryFileExt")
    case True
    then show ?thesis
      using writeEntry_file [OF assms(3,4) True] old [OF named(1)] named(2)
      by (auto simp: loadable_file_def entry_codec.dec_enc)
  qed (simp add: loadable_file_def)
  then show ?thesis
    using writeEntry_gomap [OF assms(1,4)] by (simp add: cache_loads_iff readDir_loadable)
qed

lemma removeEntry_subset: "set (snd (removeEntry rm_err dir key fs)) \<subseteq> set fs"
  by (auto simp: removeEntry_def AList.delete_eq split: option.splits)

lemma removeEntry_gomap: "gomap fs \<Longrightarrow> gomap (snd (removeEntry rm_err dir key fs))"
  by (auto simp: removeEntry_def split: option.splits)

lemma cache_loads_subset:
  "gomap fs \<Longrightarrow> gomap fs' \<Longrightarrow> set fs' \<subseteq> set fs \<Longrightarrow> cache_loads dir fs \<Longrightarrow> cache_loads dir fs'"
  by (auto simp: cache_loads_iff list_all_iff set_readDir)

lemma prune_fs:
  assumes "prune rm handles (c, fs) = (c', fs')" and "gomap fs"
  shows "gomap fs' \<and> set fs' \<subseteq> set fs \<and> ca_cfg c' = ca_cfg c"
proof -
  have "gomap (foldl (\<lambda>fs key. snd (removeEntry (rm key) dir key fs)) fs ks) \<and>
      set (foldl (\<lambda>fs key. snd (removeEntry (rm key) dir key fs)) fs ks) \<subseteq> set fs"
    if "gomap fs" for dir ks fs
    using that
  proof (induction ks arbitrary: fs)
    case (Cons k ks)
    then show ?case
      using Cons.IH [OF removeEntry_gomap [OF Cons.prems, of "rm k" dir k]]
        removeEntry_subset [of "rm k" dir k fs] by auto
  qed simp
  then show ?thesis
    using assms by (auto simp: prune_def Let_def)
qed

definition temp_world :: "fetch_env \<Rightarrow> bool" where
  "temp_world env \<longleftrightarrow> temp_digits (fv_disk env)"

definition disk_ok :: "string \<Rightarrow> walker \<Rightarrow> bool" where
  "disk_ok dir w \<longleftrightarrow> (case w of (p, c, fs) \<Rightarrow> kc_CacheDir (ca_cfg c) = dir \<and> gomap fs \<and> cache_loads dir fs)"

lemma fetchOne_states:
  assumes "Cache_fetchOne env h (c, fs) = (e, c', states)"
  shows "states = [] \<or> states = snd (writeEntry (fv_disk env) (kc_CacheDir (ca_cfg c)) (toLower h) e fs)"
  using Cache_fetchOne_entry [OF assms] by (auto split: sum.splits)

lemma fetchOne_loads:
  assumes "Cache_fetchOne env h (c, fs) = (e, c', states)" and "temp_world env"
    and "disk_ok dir (p, c, fs)" and "st \<in> set (fs # states)"
  shows "disk_ok dir (p', c', st)"
proof -
  have "st \<in> set (fs # snd (writeEntry (fv_disk env) dir (toLower h) e fs))"
    using fetchOne_states [OF assms(1)] assms(3,4) by (auto simp: disk_ok_def)
  then show ?thesis
    using assms(2,3) writeEntry_loads [of fs dir "fv_disk env" st "toLower h" e]
      writeEntry_gomap [of fs st "fv_disk env" dir "toLower h" e] Cache_fetchOne_fields(2) [OF assms(1)]
    by (simp add: disk_ok_def temp_world_def)
qed

lemma final_in: "final_state fs states \<in> set (fs # states)"
  by (simp add: final_state_def)

lemma disk_ok_step: "walk_step temp_world desired w w' \<Longrightarrow> disk_ok dir w \<Longrightarrow> disk_ok dir w'"
proof (induction rule: walk_step.induct)
  case (nothing_to_fetch rm c fs c' fs')
  then show ?case using prune_fs [OF nothing_to_fetch(2)] cache_loads_subset by (auto simp: disk_ok_def)
next
  case (begin_pass handles rm c fs c' fs' delay)
  then show ?case using prune_fs [OF begin_pass(3)] cache_loads_subset by (auto simp: disk_ok_def)
next
  case (fetch_next env g c fs e c' states before todo delay)
  then show ?case using fetchOne_loads [OF fetch_next(2,1,3) final_in] by simp
next
  case (handler_refresh env g c fs e c' fs' p)
  then show ?case by (elim Cache_RefreshE) (simp add: fetchOne_loads [OF _ handler_refresh(1,3) final_in])
qed (auto simp: disk_ok_def)

text \<open>
  C27. At every moment of any run of the walker, in the middle of a write too, the
  directory of key files loads.
\<close>

theorem cache_dir_always_loads:
  assumes "(walk_step temp_world desired)\<^sup>*\<^sup>* (p, c, fs) (p', c', fs')"
    and "dir = kc_CacheDir (ca_cfg c)" and "gomap fs" and "cache_loads dir fs"
    and "Cache_fetchOne env h (c', fs') = (e, c'', states)" and "temp_world env"
    and "st \<in> set (fs' # states)"
  shows "cache_loads dir st"
proof -
  have "disk_ok dir (p', c', fs')"
    using assms(1)
  proof (induction rule: rtranclp_induct)
    case base
    then show ?case using assms(2-4) by (simp add: disk_ok_def)
  next
    case (step x y)
    then show ?case by (blast intro: disk_ok_step)
  qed
  from fetchOne_loads [OF assms(5,6) this assms(7)] show ?thesis
    by (simp add: disk_ok_def)
qed

lemma Cache_Start_Get:
  assumes "gomap fs" and "cache_loads (kc_CacheDir (ca_cfg c)) fs" and "kc_CacheDir (ca_cfg c) \<noteq> []"
    and "CHR ''/'' \<notin> set (toLower h)"
    and "map_of fs (entry_path (kc_CacheDir (ca_cfg c)) (toLower h @ entryFileExt)) = Some (Doc (enc_key_entry e))"
  shows "Cache_Get (Cache_Start now healthy_reads fs c) h = Some e \<and>
    ca_warmed (Cache_Start now healthy_reads fs c)"
proof -
  obtain out where out: "loadCache healthy_reads (kc_CacheDir (ca_cfg c)) fs = Inr out"
    "map_of out (toLower h) = Some e"
    by (rule loadCache_find [OF assms(1-3)]) (use assms(4,5) in \<open>auto simp: entry_codec.dec_enc\<close>)
  then have "out \<noteq> []" by auto
  then show ?thesis
    using out by (simp add: Cache_Start_def Let_def Cache_Get_def)
qed

lemma entryFileName_Some: "entryFileName key = Some name \<Longrightarrow> name = key @ entryFileExt \<and> CHR ''/'' \<notin> set key"
  by (auto simp: entryFileName_def list_all_iff key_char_def less_eq_char_def split: if_splits)

text \<open>
  C28. Keys that were fetched and whose file was written are what a fresh process loads
  for the handle, and that process is ready at once.
\<close>

theorem fetched_keys_survive_restart:
  assumes "Cache_fetchOne env h (c, fs) = (e, c', states)" and "en_LastError e = []"
    and "fst (writeEntry (fv_disk env) (kc_CacheDir (ca_cfg c)) (toLower h) e fs) = None"
    and "gomap fs" and "cache_loads (kc_CacheDir (ca_cfg c)) fs" and "temp_world env"
    and "kc_CacheDir (ca_cfg c) \<noteq> []" and "kc_CacheDir (ca_cfg fresh) = kc_CacheDir (ca_cfg c)"
  shows "Cache_Get (Cache_Start now healthy_reads (final_state fs states) fresh) h = Some e \<and>
    Cache_Warmed now' (Cache_Start now healthy_reads (final_state fs states) fresh)"
proof -
  let ?dir = "kc_CacheDir (ca_cfg c)"
  obtain name where name: "entryFileName (toLower h) = Some name"
    using assms(3,7) by (auto simp: writeEntry_def split: option.splits)
  have states: "states = snd (writeEntry (fv_disk env) ?dir (toLower h) e fs)"
    using Cache_fetchOne_entry [OF assms(1)] assms(2) Cache_fetch_error by (fastforce split: sum.splits)
  have loc: "entry_location (?dir, toLower h) = Some (entry_path ?dir name)"
    using assms(7) by (simp add: entry_location_def name)
  have "map_of (final_state fs states) (entry_path ?dir name) = Some (Doc (enc_key_entry e))"
    using entry_file.success [OF loc, of "fv_disk env" e fs] assms(3) states by simp
  moreover have "disk_ok ?dir (Top, c', final_state fs states)"
    by (rule fetchOne_loads [OF assms(1,6), of ?dir Top])
      (use assms(4,5) final_in in \<open>simp_all add: disk_ok_def\<close>)
  ultimately show ?thesis
    using Cache_Start_Get [of "final_state fs states" fresh h e now] assms(7,8) entryFileName_Some [OF name]
    by (auto simp: disk_ok_def Cache_Warmed_def)
qed

section \<open>A healthy pass\<close>

definition refreshed :: "fetch_env \<Rightarrow> (string \<Rightarrow> string list) \<Rightarrow> cache \<Rightarrow> string \<Rightarrow> bool" where
  "refreshed env ks c h \<longleftrightarrow>
     (\<exists>e. Cache_Get c h = Some e \<and> en_Keys e = ks h \<and> en_FetchedAt e = fv_now env \<and> en_LastError e = [])"

lemma pass_refreshes:
  assumes "world env" and "distinct (map toLower todo)"
    and "\<And>h. h \<in> set todo \<Longrightarrow> Cache_fetch (kc_BaseURL (ca_cfg c)) (fv_http env) h = Inr (ks h)"
  shows "\<exists>c' fs'. (walk_step world desired ^^ length todo) (Pass before todo delay, c, fs) (Pass (before @ todo) [] delay, c', fs') \<and>
    (\<forall>h\<in>set todo. refreshed env ks c' h) \<and>
    (\<forall>g. toLower g \<notin> toLower ` set todo \<longrightarrow> Cache_Get c' g = Cache_Get c g)"
  using assms(2,3)
proof (induction todo arbitrary: before c fs)
  case (Cons h todo)
  obtain e c1 states where f: "Cache_fetchOne env h (c, fs) = (e, c1, states)"
    by (metis prod_cases3)
  have step: "walk_step world desired (Pass before (h # todo) delay, c, fs)
      (Pass (before @ [h]) todo delay, c1, final_state fs states)"
    using walk_step.fetch_next [of world, OF _ f] assms(1) by blast
  have e: "en_Keys e = ks h" "en_FetchedAt e = fv_now env" "en_LastError e = []"
    using Cache_fetchOne_entry [OF f] Cons.prems(2) [of h] by simp_all
  obtain c' fs' where run: "(walk_step world desired ^^ length todo)
        (Pass (before @ [h]) todo delay, c1, final_state fs states) (Pass (before @ h # todo) [] delay, c', fs')"
    and rest: "\<forall>g\<in>set todo. refreshed env ks c' g"
    and same: "\<forall>g. toLower g \<notin> toLower ` set todo \<longrightarrow> Cache_Get c' g = Cache_Get c1 g"
    using Cons.IH [of c1 "before @ [h]" "final_state fs states"] Cons.prems Cache_fetchOne_fields(2) [OF f]
    by auto
  have "toLower h \<notin> toLower ` set todo"
    using Cons.prems(1) by simp
  then have "refreshed env ks c' h"
    using same Cache_Get_fetchOne [OF f, of h] e by (simp add: refreshed_def)
  moreover have "Cache_Get c' g = Cache_Get c g" if "toLower g \<notin> toLower ` set (h # todo)" for g
    using that same Cache_Get_fetchOne [OF f, of g] by auto
  moreover have "(walk_step world desired ^^ length (h # todo)) (Pass before (h # todo) delay, c, fs)
      (Pass (before @ h # todo) [] delay, c', fs')"
    using relpowp_Suc_I2 [OF step run] by simp
  ultimately show ?case using rest by (metis set_ConsD)
qed (auto intro!: exI)

text \<open>
  C19. From any state of the cache, a pass of the walker over a healthy upstream takes one
  step to begin, one per handle and one to end; it leaves the cache warm, with an entry
  for the desired handles and no others, each with exactly the keys the upstream gave and
  no error.
\<close>

theorem healthy_pass_refreshes_every_handle:
  assumes "desired handles" and "handles \<noteq> []" and "distinct (map toLower handles)" and "world env"
    and "\<And>h. h \<in> set handles \<Longrightarrow> Cache_fetch (kc_BaseURL (ca_cfg c)) (fv_http env) h = Inr (ks h)"
  shows "\<exists>c' fs'. (walk_step world desired ^^ (length handles + 2)) (Top, c, fs) (Top, c', fs') \<and> ca_warmed c' \<and>
    (\<forall>h\<in>set handles. refreshed env ks c' h) \<and>
    (\<forall>g. Cache_Get c' g \<noteq> None \<longleftrightarrow> toLower g \<in> toLower ` set handles)"
proof -
  obtain c1 fs1 where p: "prune (\<lambda>_. None) handles (c, fs) = (c1, fs1)" by force
  define delay where "delay = (if ca_warmed c1 then paceFor c1 (int (length handles)) else ca_minDelay c1)"
  let ?c1 = "c1\<lparr>ca_pace := delay\<rparr>"
  have first: "walk_step world desired (Top, c, fs) (Pass [] handles delay, ?c1, fs1)"
    by (rule walk_step.begin_pass [where rm = "\<lambda>_. None"]) (use assms(1,2) p delay_def in simp_all)
  have "ca_cfg ?c1 = ca_cfg c"
    using p by (auto simp: prune_def Let_def)
  then obtain c2 fs2 where run: "(walk_step world desired ^^ length handles) (Pass [] handles delay, ?c1, fs1)
        (Pass handles [] delay, c2, fs2)"
    and got: "\<forall>h\<in>set handles. refreshed env ks c2 h"
    and same: "\<forall>g. toLower g \<notin> toLower ` set handles \<longrightarrow> Cache_Get c2 g = Cache_Get ?c1 g"
    using pass_refreshes [where world = world and env = env and c = ?c1 and todo = handles and ks = ks and before = "[]" and
        desired = desired and delay = delay and fs = fs1] assms(3-5) by auto
  let ?c' = "c2\<lparr>ca_lastCycle := 0, ca_warmed := True\<rparr>"
  have get: "Cache_Get ?c' g = Cache_Get c2 g" "Cache_Get ?c1 g = Cache_Get c1 g" for g
    by (simp_all add: Cache_Get_def)
  have steps: "(walk_step world desired ^^ (length handles + 2)) (Top, c, fs) (Top, ?c', fs2)"
    using relpowp_Suc_I2 [OF first relpowp_Suc_I [OF run walk_step.end_pass]] by simp
  have "Cache_Get ?c' g \<noteq> None \<longleftrightarrow> toLower g \<in> toLower ` set handles" for g
  proof (cases "toLower g \<in> toLower ` set handles")
    case True
    then obtain h where h: "h \<in> set handles" "toLower g = toLower h" by blast
    then have "Cache_Get c2 g = Cache_Get c2 h" by (simp add: Cache_Get_def)
    then show ?thesis using got h True by (auto simp: get refreshed_def)
  next
    case False
    then show ?thesis using same prune_Get [OF p, of g] by (simp add: get Cache_Get_def)
  qed
  with steps got show ?thesis
    by (intro exI [of _ ?c'] exI [of _ fs2]) (simp add: refreshed_def get)
qed

section \<open>A concrete cache\<close>

definition sample_cfg :: keys_config where
  "sample_cfg = \<lparr>kc_Enabled = True, kc_BaseURL = [], kc_RefreshInterval = 3600 * second_ns,
     kc_MaxRequestsPerSecond = 2, kc_WarmTimeout = 0, kc_CacheDir = ''/k''\<rparr>"

definition ada_entry :: entry where
  "ada_entry = \<lparr>en_Handle = ''Ada'', en_Keys = [''ssh-ed25519 A''], en_FetchedAt = 3, en_LastAttempt = 3,
     en_LastError = []\<rparr>"

definition ada_cache :: cache where
  "ada_cache = (Cache_New sample_cfg)\<lparr>ca_entries := [(''ada'', ada_entry)]\<rparr>"

definition github_up :: fetch_env where
  "github_up = \<lparr>fv_now = 9, fv_http = (\<lambda>_. Response 200 ''ssh-ed25519 B'' None), fv_disk = healthy_disk\<rparr>"

definition github_down :: fetch_env where
  "github_down = \<lparr>fv_now = 9, fv_http = (\<lambda>_. Response 503 [] None), fv_disk = healthy_disk\<rparr>"

lemma github_up_keys: "Cache_fetch base (fv_http github_up) h = Inr [''ssh-ed25519 B'']"
proof -
  have "trimSpace ''ssh-ed25519 B'' = ''ssh-ed25519 B''"
    by code_simp
  then have "parseKeys ''ssh-ed25519 B'' None = Inr [''ssh-ed25519 B'']"
    by (simp add: parseKeys_Inr max_line_def)
  then show ?thesis
    by (simp add: Cache_fetch_def github_up_def)
qed

lemma fetchOne_triple: "Cache_fetchOne env h s =
    (fst (Cache_fetchOne env h s), fst (snd (Cache_fetchOne env h s)), snd (snd (Cache_fetchOne env h s)))"
  by simp

lemma github_down_fails: "\<not> healthy_answer (fv_http github_down url)"
  by (simp add: github_down_def healthy_answer_def)

lemma ada_cached: "Cache_Get ada_cache ''Ada'' = Some ada_entry"
  by code_simp

lemma temp_worlds: "temp_world github_up" "temp_world github_down"
  by (simp_all add: temp_world_def temp_digits_def digits_only_def github_up_def github_down_def healthy_disk_def
      less_eq_char_def)

lemma failed_fetch_keeps_keys_sample:
  "en_Keys (fst (Cache_fetchOne github_down ''Ada'' (ada_cache, []))) = [''ssh-ed25519 A''] \<and>
   en_LastError (fst (Cache_fetchOne github_down ''Ada'' (ada_cache, []))) \<noteq> []"
  using failed_fetch_keeps_keys [of github_down "''Ada''" ada_cache "[]", OF fetchOne_triple github_down_fails] ada_cached
  by (simp add: ada_entry_def)

lemma fetch_during_pass:
  "world env \<Longrightarrow> (walk_step world desired)\<^sup>*\<^sup>* (Pass [] [h] d, c, fs)
     (Pass [h] [] d, fst (snd (Cache_fetchOne env h (c, fs))),
      final_state fs (snd (snd (Cache_fetchOne env h (c, fs)))))"
  using walk_step.fetch_next [OF _ fetchOne_triple, of world env desired "[]" h "[]" d c fs]
  by (intro r_into_rtranclp) simp

lemma outage_never_drops_keys_sample:
  "\<exists>e. Cache_Get (fst (snd (Cache_fetchOne github_down ''bob'' (ada_cache, [])))) ''Ada'' = Some e \<and>
     en_Keys e = [''ssh-ed25519 A'']"
proof -
  have "upstream_down github_down"
    by (simp add: upstream_down_def github_down_fails)
  from outage_never_drops_keys [OF fetch_during_pass [where world = upstream_down and env = github_down, OF this]
      ada_cached]
  show ?thesis by (fastforce simp: ada_entry_def)
qed

definition one_pass :: "string list \<Rightarrow> bool" where
  "one_pass handles \<longleftrightarrow> handles = [''Ada'']"

definition warming :: cache where
  "warming = (Cache_New sample_cfg)\<lparr>ca_pace := ca_minDelay (Cache_New sample_cfg)\<rparr>"

definition warmed_up :: cache where
  "warmed_up = fst (snd (Cache_fetchOne github_up ''Ada'' (warming, [])))"

lemma first_pass:
  "(walk_step temp_world one_pass)\<^sup>*\<^sup>* (Top, Cache_New sample_cfg, [])
     (Pass [''Ada''] [] (ca_minDelay (Cache_New sample_cfg)), warmed_up,
      final_state [] (snd (snd (Cache_fetchOne github_up ''Ada'' (warming, [])))))"
proof -
  let ?c = "Cache_New sample_cfg"
  have "walk_step temp_world one_pass (Top, ?c, []) (Pass [] [''Ada''] (ca_minDelay ?c), warming, [])"
    unfolding warming_def
    by (rule walk_step.begin_pass [where rm = "\<lambda>_. None"])
      (simp_all add: one_pass_def prune_def Cache_New_def Let_def)
  moreover note fetch_during_pass [where world = temp_world, OF temp_worlds(1), of one_pass "''Ada''" "ca_minDelay ?c" warming "[]"]
  ultimately show ?thesis
    unfolding warmed_up_def by (rule converse_rtranclp_into_rtranclp)
qed


theorem pace_is_bounded_sample:
  "ca_minDelay ada_cache \<le> paceFor ada_cache 100 \<and> 100 * paceFor ada_cache 100 \<le> 3600 * second_ns"
proof -
  have "ca_minDelay ada_cache = second_ns div 2" and "kc_RefreshInterval (ca_cfg ada_cache) = 3600 * second_ns"
    and "paceFor ada_cache 100 = 36 * second_ns"
    by (simp_all add: ada_cache_def Cache_New_def Let_def sample_cfg_def second_ns_def paceFor_def
        signed_divide_int_def)
  then show ?thesis
    using pace_is_bounded [of 100 ada_cache] by (simp add: second_ns_def)
qed

theorem request_rate_ceiling_sample:
  "of_int (ca_minDelay (Cache_New sample_cfg)) * 2 \<le> (of_int second_ns :: rat)"
  using request_rate_ceiling [of sample_cfg] by (simp add: sample_cfg_def)

lemma empty_disk_loads: "cache_loads dir []"
  by (simp add: cache_loads_def loadCache_def readDir_def)

theorem cache_dir_always_loads_sample:
  "cache_loads ''/k'' (final_state [] (snd (snd (Cache_fetchOne github_up ''Ada'' (ada_cache, [])))))"
proof -
  have dir: "''/k'' = kc_CacheDir (ca_cfg ada_cache)"
    by (simp add: ada_cache_def Cache_New_def sample_cfg_def Let_def)
  show ?thesis
    by (rule cache_dir_always_loads [where p = Top and p' = Top and c = ada_cache and fs = "[]" and
          c' = ada_cache and fs' = "[]" and env = github_up and h = "''Ada''" and desired = one_pass,
          OF rtranclp.rtrancl_refl dir gomap_Nil empty_disk_loads fetchOne_triple temp_worlds(1) final_in])
qed

theorem fetched_keys_survive_restart_sample:
  "Cache_Warmed 20 (Cache_Start 11 healthy_reads
     (final_state [] (snd (snd (Cache_fetchOne github_up ''Ada'' (ada_cache, []))))) (Cache_New sample_cfg))"
proof -
  have dir: "kc_CacheDir (ca_cfg ada_cache) = ''/k''" "kc_CacheDir (ca_cfg (Cache_New sample_cfg)) = ''/k''"
    by (simp_all add: ada_cache_def Cache_New_def sample_cfg_def Let_def)
  have ok: "en_LastError (fst (Cache_fetchOne github_up ''Ada'' (ada_cache, []))) = []"
    using Cache_fetchOne_entry [OF fetchOne_triple, of github_up "''Ada''" ada_cache "[]"] by (simp add: github_up_keys)
  have "entryFileName (toLower ''Ada'') = Some ''ada.json''"
    by code_simp
  then have written: "fst (writeEntry (fv_disk github_up) (kc_CacheDir (ca_cfg ada_cache)) (toLower ''Ada'') e []) = None" for e
    by (simp add: dir writeEntry_def github_up_def healthy_disk_def write_temp_rename_def Let_def)
  show ?thesis
    using fetched_keys_survive_restart [OF fetchOne_triple ok written _ empty_disk_loads temp_worlds(1),
        of "Cache_New sample_cfg" 11 20] dir by simp
qed

theorem healthy_pass_refreshes_every_handle_sample:
  "\<exists>c' fs'. (walk_step temp_world one_pass ^^ 3) (Top, ada_cache, []) (Top, c', fs') \<and> ca_warmed c' \<and>
     refreshed github_up (\<lambda>_. [''ssh-ed25519 B'']) c' ''Ada''"
proof -
  have three: "length [''Ada''] + 2 = 3" by simp
  have "\<exists>c' fs'. (walk_step temp_world one_pass ^^ (length [''Ada''] + 2)) (Top, ada_cache, []) (Top, c', fs') \<and> ca_warmed c' \<and>
      (\<forall>h\<in>set [''Ada'']. refreshed github_up (\<lambda>_. [''ssh-ed25519 B'']) c' h) \<and>
      (\<forall>g. Cache_Get c' g \<noteq> None \<longleftrightarrow> toLower g \<in> toLower ` set [''Ada''])"
    by (rule healthy_pass_refreshes_every_handle) (simp_all add: one_pass_def github_up_keys temp_worlds)
  then show ?thesis unfolding three by (metis list.set_intros(1))
qed


end
