(* ===== verification/DiskKeys.thy ===== *)
theory DiskKeys
  imports Disk KeysProps
begin

text \<open>
  The key files on the disk of a pod: what a start would load of them, after the saves of the index,
  the passes of the walker and the fetches of the run before.
\<close>

section \<open>The keys on the disk\<close>

text \<open>The keys of a handle and the time they were fetched, in a map of entries.\<close>

definition cached :: "string \<Rightarrow> string list \<Rightarrow> time \<Rightarrow> (string \<times> entry) list \<Rightarrow> bool" where
  "cached h ks t m \<longleftrightarrow>
     (case map_of m (toLower h) of None \<Rightarrow> False | Some e \<Rightarrow> en_Keys e = ks \<and> en_FetchedAt e = t)"

lemma holds_keys_cached: "holds_keys h ks t (p, c, fs) \<longleftrightarrow> cached h ks t (ca_entries c)"
  by (simp add: holds_keys_def cached_def Cache_Get_def)

text \<open>The keys of a handle and their time are among what a start loads.\<close>

definition stored :: "string \<Rightarrow> string \<Rightarrow> string list \<Rightarrow> time \<Rightarrow> fs \<Rightarrow> bool" where
  "stored dir h ks t fs \<longleftrightarrow> gomap fs \<and>
     (case loadCache healthy_reads dir fs of Inl _ \<Rightarrow> False | Inr out \<Rightarrow> cached h ks t out)"

text \<open>The snapshot file, and the temporary file beside it, are not in the directory of the keys.\<close>

definition apart :: "string \<Rightarrow> string \<Rightarrow> bool" where
  "apart dir path \<longleftrightarrow> path = [] \<or> \<not> below dir path \<and> \<not> starts_with path dir"

definition key_path :: "string \<Rightarrow> string \<Rightarrow> string" where
  "key_path dir h = entry_path dir (toLower h @ entryFileExt)"

lemma load_files_keys:
  "load_files re files out = Inr out' \<Longrightarrow> fst ` set out' \<subseteq> fst ` set out \<union> trim_ext ` fst ` set files"
proof (induction re files out rule: load_files.induct)
  case (2 re name data rest out)
  then show ?case
    by (auto simp: dom_update split: if_splits option.splits)
qed simp

lemma stored_iff:
  "stored dir h ks t fs \<longleftrightarrow> gomap fs \<and> cache_loads dir fs \<and> dir \<noteq> [] \<and> CHR ''/'' \<notin> set (toLower h) \<and>
     (\<exists>d e. map_of fs (key_path dir h) = Some d \<and> Option.bind (parse_document d) dec_key_entry = Some e \<and>
        en_Keys e = ks \<and> en_FetchedAt e = t)"
proof (cases "gomap fs \<and> cache_loads dir fs \<and> dir \<noteq> []")
  case True
  obtain out where out: "loadCache healthy_reads dir fs = Inr out"
    "\<And>key. CHR ''/'' \<notin> set key \<Longrightarrow> map_of out key =
       Option.bind (map_of fs (entry_path dir (key @ entryFileExt))) (\<lambda>d. Option.bind (parse_document d) dec_key_entry)"
    using loadCache_find True by metis
  have "CHR ''/'' \<notin> set (toLower h)" if "map_of out (toLower h) \<noteq> None"
  proof -
    have "load_files healthy_reads (readDir dir fs) [] = Inr out"
      using out(1) True by (simp add: loadCache_def)
    from load_files_keys [OF this] that obtain name d where "toLower h = trim_ext name" "(name, d) \<in> set (readDir dir fs)"
      by (auto simp: map_of_eq_None_iff)
    then show ?thesis
      using set_take_subset by (fastforce simp: set_readDir trim_ext_def)
  qed
  with True out show ?thesis
    by (auto simp: stored_def cached_def key_path_def bind_eq_Some_conv split: option.splits)
next
  case False
  have "\<not> cached h ks t []"
    by (simp add: cached_def)
  then have "stored dir h ks t fs \<Longrightarrow> gomap fs \<and> cache_loads dir fs \<and> dir \<noteq> []"
    by (cases "dir = []") (simp_all add: stored_def cache_loads_def loadCache_def [of _ "[]"] split: sum.splits)
  with False show ?thesis by blast
qed

lemma stored_same:
  assumes "stored dir h ks t fs" and "gomap fs'" and "map_of fs' (key_path dir h) = map_of fs (key_path dir h)"
    and "\<And>name d. map_of fs' (entry_path dir name) = Some d \<Longrightarrow> map_of fs (entry_path dir name) = Some d"
  shows "stored dir h ks t fs'"
  using assms by (auto simp: stored_iff cache_loads_iff readDir_loadable)

lemma Cache_Start_stored:
  assumes "stored (kc_CacheDir (ca_cfg c)) h ks t fs"
  shows "cached h ks t (ca_entries (Cache_Start now healthy_reads fs c))"
  using assms
  by (auto simp: stored_def Cache_Start_def Let_def cached_def split: sum.splits)

text \<open>A key file that was written is.\<close>

lemma writeEntry_stored:
  assumes "fst (writeEntry env dir (toLower h) e fs) = None" and "dir \<noteq> []" and "gomap fs" and "cache_loads dir fs"
    and "temp_digits env"
  shows "stored dir h (en_Keys e) (en_FetchedAt e) (final_state fs (snd (writeEntry env dir (toLower h) e fs)))"
proof -
  let ?d = "final_state fs (snd (writeEntry env dir (toLower h) e fs))"
  obtain name where name: "entryFileName (toLower h) = Some name"
    using assms(1,2) by (auto simp: writeEntry_def split: option.splits)
  then have "entry_location (dir, toLower h) = Some (entry_path dir name)"
    using assms(2) by (simp add: entry_location_def)
  from entry_file.success [OF this, of env e fs] assms(1) have "map_of ?d (entry_path dir name) = Some (Doc (enc_key_entry e))"
    by simp
  with writeEntry_loads [OF assms(3-5) final_in] writeEntry_gomap [OF assms(3) final_in] entryFileName_Some [OF name] assms(2)
  show ?thesis
    by (simp add: stored_iff key_path_def entry_codec.dec_enc)
qed

section \<open>What keeps them\<close>

lemma in_the_way:
  assumes "apart dir path" and "path \<noteq> []" and "dir \<noteq> []"
  shows "entry_path dir name \<noteq> path @ rest"
proof
  assume eq: "entry_path dir name = path @ rest"
  then have "dir @ ''/'' @ name = path @ rest"
    by (simp add: entry_path_def)
  then obtain us where "dir = path @ us \<or> dir @ us = path \<and> ''/'' @ name = us @ rest"
    by (auto simp: append_eq_append_conv2)
  then show False
    using assms by (cases us) (auto simp: apart_def below_def starts_with_iff)
qed

lemma Save_gomap: "gomap fs \<Longrightarrow> d \<in> set (snd (Save env i path fs)) \<Longrightarrow> gomap d"
  by (auto simp: Save_def split: if_splits option.splits dest: write_temp_rename_gomap)

lemma Save_stored:
  assumes "stored dir h ks t fs" and "apart dir path" and d: "d \<in> set (snd (Save env i path fs))"
  shows "stored dir h ks t d"
proof -
  have w: "path \<noteq> []" "d \<in> set (snd (write_temp_rename env path (Doc (enc_index i)) fs))"
    using d by (auto simp: Save_def split: if_splits option.splits)
  have dir: "dir \<noteq> []"
    using assms(1) by (simp add: stored_iff)
  have "map_of d (entry_path dir name) = map_of fs (entry_path dir name)" for name
    using in_the_way [OF assms(2) w(1) dir, of name] in_the_way [OF assms(2) w(1) dir, of name "[]"]
    by (intro write_temp_rename_frame [OF w(2)]) (simp_all add: temp_name_def)
  moreover have "gomap d"
    using Save_gomap [OF _ d] assms(1) by (simp add: stored_def)
  ultimately show ?thesis
    by (intro stored_same [OF assms(1)]) (simp_all add: key_path_def)
qed

lemma finish_sync_saves:
  assumes "finish_sync now env mg s fs = (idx, s', states)" and "d \<in> set states"
  obtains i where "d \<in> set (snd (Save env i (sy_snapshot s) fs))"
  using assms by (auto simp: finish_sync_def Let_def split: if_splits)

lemma removeEntry_stored:
  assumes "stored dir h ks t fs" and "key \<noteq> toLower h"
  shows "stored dir h ks t (snd (removeEntry err dir key fs))"
proof (rule stored_same [OF assms(1) removeEntry_gomap])
  show "gomap fs"
    using assms(1) by (simp add: stored_def)
  show "map_of (snd (removeEntry err dir key fs)) (key_path dir h) = map_of fs (key_path dir h)"
    using assms(2) entryFileName_Some [of key]
    by (auto simp: removeEntry_def key_path_def gomap_simps split: option.split)
  show "map_of (snd (removeEntry err dir key fs)) (entry_path dir name) = Some d \<Longrightarrow> map_of fs (entry_path dir name) = Some d" for name d
    by (auto simp: removeEntry_def gomap_simps split: if_splits option.splits)
qed

lemma prune_stored:
  assumes "prune rm handles (c, fs) = (c', fs')" and "wants h handles" and "stored (kc_CacheDir (ca_cfg c)) h ks t fs"
  shows "stored (kc_CacheDir (ca_cfg c)) h ks t fs'"
proof -
  have "stored dir h ks t (foldl (\<lambda>fs key. snd (removeEntry (rm key) dir key fs)) fs removed)"
    if "stored dir h ks t fs" "toLower h \<notin> set removed" for dir removed
    using that removeEntry_stored by (induction removed arbitrary: fs) auto
  with assms show ?thesis
    by (auto simp: prune_def Let_def wants_def)
qed

lemma down_writes_nothing:
  "upstream_down env \<Longrightarrow> Cache_fetchOne env h (c, fs) = (e, c', states) \<Longrightarrow> states = []"
  using Cache_fetchOne_entry [of env h c fs e c' states] Cache_fetch_ok
  by (fastforce simp: upstream_down_def split: sum.splits)

lemma walk_step_stored:
  assumes "walk_step upstream_down (wants h) x y" and "stored (kc_CacheDir (ca_cfg (fst (snd x)))) h ks t (snd (snd x))"
  shows "stored (kc_CacheDir (ca_cfg (fst (snd x)))) h ks t (snd (snd y))"
  using assms
proof (induction rule: walk_step.induct)
  case (nothing_to_fetch rm c fs c' fs')
  then show ?case by (simp add: wants_def)
next
  case (fetch_next env g c fs e c' states before todo delay)
  then show ?case using down_writes_nothing by fastforce
next
  case (handler_refresh env g c fs e c' fs' p)
  then show ?case using down_writes_nothing by (fastforce elim: Cache_RefreshE)
qed (auto intro: prune_stored)

end
