(* ===== verification/KeysOutage.thy ===== *)
theory KeysOutage
  imports SystemProps DiskKeys
begin

text \<open>
  A total outage: a source fails and GitHub answers no request for keys. As long as the writer stays
  up, the people of the source and their cached keys hold each other: the index goes on listing them,
  so the walker does not prune their keys, and every snapshot published meanwhile has both.
\<close>

section \<open>The outage\<close>

definition total_outage :: "string \<Rightarrow> conditions" where
  "total_outage name =
     \<lparr>cn_fetch = outage name, cn_keys = upstream_down, cn_boot = (\<lambda>_. False), cn_loses = True\<rparr>"

lemma total_outage_simps [simp]:
  "cn_fetch (total_outage name) = outage name" "cn_keys (total_outage name) = upstream_down"
  "\<not> cn_boot (total_outage name) b"
  by (simp_all add: total_outage_def)

fun carries_keys :: "string \<Rightarrow> string list \<Rightarrow> time \<Rightarrow> publish_phase \<Rightarrow> bool" where
  "carries_keys h ks t (Took_keys i kc) \<longleftrightarrow> (\<exists>c. kc = Some c \<and> gomap (ca_entries c) \<and> cached h ks t (ca_entries c))"
| "carries_keys h ks t (Saving env snap) \<longleftrightarrow> (\<exists>m. sn_Keys snap = Some m \<and> gomap m \<and> cached h ks t m)"
| "carries_keys h ks t phase \<longleftrightarrow> True"

definition holds_both :: "string \<Rightarrow> string \<Rightarrow> string \<Rightarrow> string list \<Rightarrow> time \<Rightarrow> writer \<Rightarrow> bool" where
  "holds_both name slug h ks t w \<longleftrightarrow> keeps name slug (toLower h) w \<and> carries_keys h ks t (wr_publish w) \<and>
     (\<exists>c. pd_keys (wr_pod w) = Some c \<and> cached h ks t (ca_entries c))"

text \<open>The walker wants the keys of everyone the index lists.\<close>

lemma listed_wanted:
  assumes "serving (listed name slug (toLower h)) p" and "wanted p handles"
  shows "wants h handles"
proof -
  obtain i where i: "Store_Get (sy_store (pd_syncer p)) = Some i" "listed name slug (toLower h) i"
    using assms(1) by (auto simp: serving_def)
  then have "find_member i slug (toLower h) \<noteq> None"
    by (auto simp: listed_def lists_def split: option.splits)
  then have "toLower h \<in> set (map (\<lambda>u. toLower (us_Handle u)) (Users i))"
    using i(2) Users_keys [of i] by (auto simp: listed_def index_wf_shape in_index_keys finite_index_keys)
  then show ?thesis
    using assms(2) i(1) by (auto simp: wants_def wanted_def handlesFn_def)
qed

lemma holds_both_step:
  assumes "writer_step cn cfg w w'" and down: "\<And>f. cn_fetch cn f \<Longrightarrow> outage name f" "\<And>env. cn_keys cn env \<Longrightarrow> upstream_down env"
    and "holds_both name slug h ks t w" and "pod_ok cfg (wr_pod w)"
  shows "holds_both name slug h ks t w'"
proof -
  have "keeps name slug (toLower h) w'"
    by (rule writer_step_keeps [OF assms(1) down(1)]) (use assms(4) in \<open>simp_all add: holds_both_def\<close>)
  moreover have "carries_keys h ks t (wr_publish w') \<and>
      (\<exists>c. pd_keys (wr_pod w') = Some c \<and> cached h ks t (ca_entries c))"
    using assms(1)
  proof (cases rule: writer_step.cases)
    case (walks c ph c' fs)
    have "walk_step upstream_down (wants h) (wr_walk w, c, pd_fs (wr_pod w)) (ph, c', fs)"
      by (rule walk_step_mono [OF walks(3) down(2)])
        (use listed_wanted [of name slug h "wr_pod w"] assms(4) in \<open>simp_all add: holds_both_def keeps_def\<close>)
    from outage_step [OF this, of ks t] walks assms(4) show ?thesis
      by (simp add: holds_both_def holds_keys_cached)
  next
    case (answers env rq r g fs kc)
    from answers(2,3) show ?thesis
    proof (cases rule: answer_keys)
      case 1
      with answers(1) assms(4) show ?thesis by (simp add: holds_both_def)
    next
      case (2 c c' handle e)
      have "walk_step upstream_down (wants h) (Top, c, pd_fs (wr_pod w)) (Top, c', fs)"
        by (rule walk_step.handler_refresh [OF _ 2(3)]) (use answers(4) down(2) in simp)
      from outage_step [OF this, of ks t] 2 answers(1) assms(4) show ?thesis
        by (simp add: holds_both_def holds_keys_cached)
    qed
  qed (use assms(4,5) in \<open>auto simp: holds_both_def live_snapshot_def Cache_Snapshot_def pod_ok_def cache_ok_def\<close>)
  ultimately show ?thesis by (simp add: holds_both_def)
qed

section \<open>The system\<close>

definition shows_both :: "string \<Rightarrow> string \<Rightarrow> string \<Rightarrow> string list \<Rightarrow> time \<Rightarrow> snapshot \<Rightarrow> bool" where
  "shows_both name slug h ks t snap \<longleftrightarrow>
     (\<exists>i m. sn_Index snap = Some i \<and> listed name slug (toLower h) i \<and> sn_Keys snap = Some m \<and> gomap m \<and> cached h ks t m)"

definition steady :: "string \<Rightarrow> string \<Rightarrow> string \<Rightarrow> string list \<Rightarrow> time \<Rightarrow> snapshot list \<Rightarrow> system \<Rightarrow> bool" where
  "steady name slug h ks t old s \<longleftrightarrow>
     (\<forall>w. sm_writer s = Some w \<longrightarrow> holds_both name slug h ks t w) \<and>
     (\<exists>new. sm_published s = new @ old \<and> list_all (shows_both name slug h ks t) new)"

lemma steady_step:
  assumes "system_step cn cfg s s'" and "system_ok cfg s" and "steady name slug h ks t old s"
    and down: "\<And>f. cn_fetch cn f \<Longrightarrow> outage name f" "\<And>env. cn_keys cn env \<Longrightarrow> upstream_down env"
    and up: "\<And>b p db idx. boots_with cn cfg (sm_db s) b (sm_disk s) p db \<Longrightarrow> Store_Get (sy_store (pd_syncer p)) = Some idx \<Longrightarrow>
      holds_both name slug h ks t (new_writer p) \<and>
      shows_both name slug h ks t (live_snapshot (bt_publish b) idx (pd_keys p) (Statuses (pd_syncer p)))"
  shows "steady name slug h ks t old s'"
proof -
  have both: "\<And>w. sm_writer s = Some w \<Longrightarrow> holds_both name slug h ks t w"
    and new: "\<exists>new. sm_published s = new @ old \<and> list_all (shows_both name slug h ks t) new"
    using assms(3) by (auto simp: steady_def)
  from assms(1) show ?thesis
  proof (cases rule: system_step.cases)
    case (works w w')
    have "pod_ok cfg (wr_pod w)"
      using system_okD(1) [OF assms(2) works(2)] by (simp add: writer_ok_def)
    with holds_both_step [OF works(3) down both [OF works(2)]] works(1) new show ?thesis by (simp add: steady_def)
  next
    case (saves w env snap)
    have "shows_both name slug h ks t snap"
      using both [OF saves(2)] saves(3) by (auto simp: holds_both_def keeps_def shows_both_def live_snapshot_def)
    moreover obtain new where "sm_published s = new @ old" "list_all (shows_both name slug h ks t) new"
      using new by blast
    ultimately have "\<exists>new. sm_published s' = new @ old \<and> list_all (shows_both name slug h ks t) new"
      using saves(1) by (intro exI [of _ "snap # new"]) simp
    with both [OF saves(2)] saves(1) show ?thesis
      by (simp add: steady_def holds_both_def keeps_def)
  next
    case (boots b p db idx snap)
    obtain new where "sm_published s = new @ old" "list_all (shows_both name slug h ks t) new"
      using new by blast
    with up [OF boots(3,4)] boots(1,5) show ?thesis
      by (auto simp: steady_def intro!: exI [of _ "snap # new"])
  qed (use both new in \<open>simp_all add: steady_def\<close>)
qed

lemma steady_runs:
  assumes "(system_step (total_outage name) cfg)\<^sup>*\<^sup>* s t" and "is_writer cfg" and "system_ok cfg s"
    and "steady name slug h ks tm old s"
  shows "steady name slug h ks tm old t"
  using assms(1)
proof (induction rule: rtranclp_induct)
  case base
  then show ?case by (rule assms(4))
next
  case (step t u)
  have "\<not> boots_with (total_outage name) cfg db b fs p out" for db b fs p out
    by (simp add: boots_with_def)
  with steady_step [OF step.hyps(2) system_ok_runs [OF runs_any [OF step.hyps(1)] assms(2,3)] step.IH] show ?case by simp
qed

text \<open>What the writer and the readers of a new snapshot then serve.\<close>

lemma steady_serves:
  assumes run: "cluster_step\<^sup>*\<^sup>* new_cluster (cluster_of t)" and "steady name slug h ks tm old t"
  shows "(\<forall>w. sm_writer t = Some w \<longrightarrow>
      (\<exists>j c e. Store_Get (sy_store (pd_syncer (wr_pod w))) = Some j \<and> lists name slug (toLower h) j \<and>
         pd_keys (wr_pod w) = Some c \<and> Cache_Get c h = Some e \<and> en_Keys e = ks \<and> en_FetchedAt e = tm)) \<and>
    (\<forall>n r. between_loads (sm_readers t n) \<and> sm_db t = Table (Some r) \<and>
       po_lastGen (rp_poller (sm_readers t n)) = pr_Generation r \<and> pr_Generation r \<notin> set (generations old) \<longrightarrow>
       (\<exists>j e. Store_Get (po_index (rp_poller (sm_readers t n))) = Some j \<and> lists name slug (toLower h) j \<and>
         Keys_Get (Published (po_keys (rp_poller (sm_readers t n)))) h = Some e \<and> en_Keys e = ks \<and> en_FetchedAt e = tm))"
proof (intro conjI allI impI, goal_cases)
  case (1 w)
  with assms(2) have "holds_both name slug h ks tm w"
    by (simp add: steady_def)
  then show ?case
    by (auto simp: holds_both_def keeps_def serving_def listed_def cached_def Cache_Get_def split: option.splits)
next
  case (2 n r)
  obtain snap where snap: "snap \<in> set (sm_published t)" "row_of snap r" "serves (rp_poller (sm_readers t n)) snap"
    using same_generation_means_up_to_date [OF run, of r n] 2 by (auto simp: cluster_of_def)
  have "snap \<notin> set old"
    using 2 snap(2) in_generations by (fastforce simp: row_of_def)
  then have "shows_both name slug h ks tm snap"
    using assms(2) snap(1) by (auto simp: steady_def list_all_iff)
  then obtain j m e where "sn_Index snap = Some j" "listed name slug (toLower h) j" "sn_Keys snap = Some m" "gomap m"
    "map_of m (toLower h) = Some e" "en_Keys e = ks" "en_FetchedAt e = tm"
    by (auto simp: shows_both_def cached_def split: option.splits)
  with snap(3) norm_listed show ?case
    by (auto simp: serves_defs Reader_Get_def map_of_sorted_map option.map_ident listed_def)
qed

text \<open>
  C17. While a source fails and GitHub answers no request for keys, and as long as the
  writer stays up, a person whom the index lists and the last good rows of the source hold
  stays in the index with the keys and their fetch time unchanged, over any interleaving
  of syncs, walker, requests and publications; and every reader that loads a snapshot
  published meanwhile serves the person and the keys.
\<close>

theorem total_outage_keeps_people_and_keys:
  assumes "is_writer cfg" and "runs cfg new_system s"
    and "sm_writer s = Some w" and "wr_sync w = Between_syncs" and "wr_publish w = Between_publications"
    and "Store_Get (sy_store (pd_syncer (wr_pod w))) = Some i" and "lists name slug (toLower h) i"
    and "remembers name slug (toLower h) (pd_syncer (wr_pod w))"
    and "name \<in> Source_Name ` set (pd_sources (wr_pod w))" and "map_of (ExcludedHandles cfg) (toLower h) \<noteq> Some True"
    and "pd_keys (wr_pod w) = Some c" and "Cache_Get c h = Some e"
    and "(system_step (total_outage name) cfg)\<^sup>*\<^sup>* s t"
  shows "(\<forall>w. sm_writer t = Some w \<longrightarrow>
      (\<exists>j c' e'. Store_Get (sy_store (pd_syncer (wr_pod w))) = Some j \<and> lists name slug (toLower h) j \<and>
         pd_keys (wr_pod w) = Some c' \<and> Cache_Get c' h = Some e' \<and>
         en_Keys e' = en_Keys e \<and> en_FetchedAt e' = en_FetchedAt e)) \<and>
    (\<forall>n r. between_loads (sm_readers t n) \<and> sm_db t = Table (Some r) \<and>
       po_lastGen (rp_poller (sm_readers t n)) = pr_Generation r \<and> pr_Generation r \<notin> set (generations (sm_published s)) \<longrightarrow>
       (\<exists>j e'. Store_Get (po_index (rp_poller (sm_readers t n))) = Some j \<and> lists name slug (toLower h) j \<and>
         Keys_Get (Published (po_keys (rp_poller (sm_readers t n)))) h = Some e' \<and>
         en_Keys e' = en_Keys e \<and> en_FetchedAt e' = en_FetchedAt e))"
proof -
  have ok: "system_ok cfg s"
    by (rule system_ok_reachable [OF assms(2,1)])
  have pod: "pod_ok cfg (wr_pod w)"
    using system_okD(1) [OF ok assms(3)] by (simp add: writer_ok_def)
  then have "listed name slug (toLower h) i"
    using assms(6,7) by (simp add: pod_ok_def serving_def listed_def index_ok_def)
  then have "holds_both name slug h (en_Keys e) (en_FetchedAt e) w"
    using assms(4-6,8-12) pod
    by (simp add: holds_both_def keeps_def serving_def cached_def Cache_Get_def pod_ok_def)
  then have "steady name slug h (en_Keys e) (en_FetchedAt e) (sm_published s) s"
    by (simp add: steady_def assms(3))
  from steady_runs [OF assms(13,1) ok this] have "steady name slug h (en_Keys e) (en_FetchedAt e) (sm_published s) t" .
  from steady_serves [OF system_okD(3) [OF system_ok_runs [OF runs_any [OF assms(13)] assms(1) ok]] this] show ?thesis .
qed

section \<open>A sample outage\<close>

lemma sample_key_file:
  assumes "Cache_fetchOne github_up ''bob'' (c, []) = (e, c', states)"
    and "kc_CacheDir (ca_cfg c) = kf_CacheDir (cf_Keys sample_config)"
  shows "stored (kf_CacheDir (cf_Keys sample_config)) ''bob'' (en_Keys e) (en_FetchedAt e) (final_state [] states)"
proof -
  have dir: "kf_CacheDir (cf_Keys sample_config) = ''/keys''"
    by (simp add: sample_config_def)
  have "entryFileName (toLower ''bob'') \<noteq> None"
    by code_simp
  then have "fst (writeEntry (fv_disk github_up) ''/keys'' (toLower ''bob'') e []) = None"
    by (auto simp: writeEntry_def github_up_def healthy_disk_def write_temp_rename_def Let_def split: option.split)
  from writeEntry_stored [OF this] temp_worlds(1) empty_disk_loads Cache_fetchOne_entry [OF assms(1)] assms(2) show ?thesis
    by (simp add: dir github_up_keys temp_world_def gomap_def)
qed

text \<open>A writer with the keys of one person, fetched before the outage.\<close>

lemma sample_up_with_keys:
  obtains p c e r snap i where
    "runs sample_config new_system (new_system\<lparr>sm_db := Table (Some r), sm_published := [snap], sm_writer := Some (new_writer p)\<rparr>)"
    "sn_Generation snap = 7" "Store_Get (sy_store (pd_syncer p)) = Some i"
    "listed NameProtocolGuild ''reth'' ''bob'' i" "remembers NameProtocolGuild ''reth'' ''bob'' (pd_syncer p)"
    "NameProtocolGuild \<in> Source_Name ` set (pd_sources p)" "pd_keys p = Some c"
    "Cache_Get c ''bob'' = Some e" "en_Keys e = [''ssh-ed25519 B'']"
    "stored (kf_CacheDir (cf_Keys sample_config)) ''bob'' (en_Keys e) (en_FetchedAt e) (pd_fs p)"
    "row_of snap r" "sn_Index snap = Some i"
proof (rule sample_up)
  fix p c r snap i
  let ?up = "\<lambda>p. new_system\<lparr>sm_db := Table (Some r), sm_published := [snap], sm_writer := Some (new_writer p)\<rparr>"
  assume up: "runs sample_config new_system (?up p)"
    and row: "row_of snap r" "sn_Index snap = Some i"
    and p: "sn_Generation snap = 7" "Store_Get (sy_store (pd_syncer p)) = Some i"
      "listed NameProtocolGuild ''reth'' ''bob'' i" "remembers NameProtocolGuild ''reth'' ''bob'' (pd_syncer p)"
      "NameProtocolGuild \<in> Source_Name ` set (pd_sources p)" and keys: "pd_keys p = Some c" "pd_fs p = []"
  obtain e c' fs where fetch: "Cache_Refresh github_up ''bob'' (c, pd_fs p) = (e, c', fs)"
    by (metis prod_cases3)
  then obtain states where one: "Cache_fetchOne github_up ''bob'' (c, pd_fs p) = (e, c', states)"
    by (rule Cache_RefreshE)
  let ?q = "p\<lparr>pd_keys := Some c', pd_fs := fs\<rparr>"
  have "writer_step anything sample_config (new_writer p) (new_writer ?q)"
    using writer_step.walks [of "new_writer p" c anything Top c' fs sample_config] keys
      walk_step.handler_refresh [of "cn_keys anything", OF _ fetch] by (simp add: new_writer_def)
  then have "system_step anything sample_config (?up p) (?up ?q)"
    using system_step.works [of "?up p" "new_writer p" anything sample_config "new_writer ?q"] by simp
  with up have run: "runs sample_config new_system (?up ?q)"
    by (rule rtranclp.rtrancl_into_rtrancl)
  have "Cache_Get c' ''bob'' = Some e" "en_Keys e = [''ssh-ed25519 B'']"
    using Cache_Get_fetchOne [OF one] Cache_fetchOne_entry [OF one] by (simp_all add: github_up_keys)
  moreover have "stored (kf_CacheDir (cf_Keys sample_config)) ''bob'' (en_Keys e) (en_FetchedAt e) fs"
    using sample_key_file [OF one [unfolded keys(2)]] fetch system_okD(1) [OF system_ok_reachable [OF up sample_writer]] keys
    by (simp add: Cache_Refresh_def one [unfolded keys(2)] writer_ok_def pod_ok_def cache_ok_def new_writer_def)
  ultimately show thesis
    using run p row that [where p = ?q and c = c' and e = e and r = r and snap = snap and i = i] by simp
qed

text \<open>It publishes during the outage, and a reader loads what it published.\<close>

lemma outage_publishes:
  assumes "sm_writer s = Some (new_writer p)" and "sm_db s = Table q" and "generations (sm_published s) = [7]"
    and "Store_Get (sy_store (pd_syncer p)) = Some i"
  obtains snap r where "(system_step cn cfg)\<^sup>*\<^sup>* s (s\<lparr>sm_db := Table (Some r), sm_published := snap # sm_published s\<rparr>)"
    "row_of snap r" "sn_Generation snap = 9" "sn_Index snap = Some i"
proof -
  let ?w = "\<lambda>ph. (new_writer p)\<lparr>wr_publish := ph\<rparr>"
  let ?s = "\<lambda>ph. s\<lparr>sm_writer := Some (?w ph)\<rparr>"
  let ?snap = "live_snapshot later_publication i (pd_keys p) (Statuses (pd_syncer p))"
  have works: "system_step cn cfg (?s a) (?s b)" if "writer_step cn cfg (?w a) (?w b)" for a b
    using system_step.works [of "?s a" "?w a" cn cfg "?w b"] that by simp
  have "writer_step cn cfg (?w Between_publications) (?w (Took_index i))"
    using writer_step.takes_index [of "?w Between_publications" i cn cfg] assms(4) by (simp add: new_writer_def)
  moreover have "writer_step cn cfg (?w (Took_index i)) (?w (Took_keys i (pd_keys p)))"
    using writer_step.takes_keys [of "?w (Took_index i)" i cn cfg] by (simp add: new_writer_def)
  moreover have "writer_step cn cfg (?w (Took_keys i (pd_keys p))) (?w (Saving later_publication ?snap))"
    using writer_step.takes_statuses [of "?w (Took_keys i (pd_keys p))" i "pd_keys p" cn cfg later_publication]
    by (simp add: new_writer_def)
  ultimately have "(system_step cn cfg)\<^sup>*\<^sup>* (?s Between_publications) (?s (Saving later_publication ?snap))"
    using works by (meson converse_rtranclp_into_rtranclp rtranclp.rtrancl_refl)
  moreover have "?s Between_publications = s"
    using assms(1) by (simp add: new_writer_def)
  ultimately have to_save: "(system_step cn cfg)\<^sup>*\<^sup>* s (?s (Saving later_publication ?snap))"
    by simp
  obtain r where r: "publish_snapshot later_publication ?snap (Table q) = Table (Some r)" "row_of ?snap r"
    using publish_healthy [OF assms(4), of later_publication "pd_keys p" "Statuses (pd_syncer p)" q] sample_healthy
    by (auto simp: publish_def assms(4))
  have up: "s\<lparr>sm_db := d, sm_published := l, sm_writer := Some (new_writer p)\<rparr> = s\<lparr>sm_db := d, sm_published := l\<rparr>" for d l
    using assms(1) by (cases s) simp
  have gen: "sn_Generation ?snap = 9" "sn_Index ?snap = Some i"
    by (simp_all add: live_snapshot_def sample_healthy)
  then have "fresh_generation ?snap (sm_published s)"
    using assms(3) by (simp add: fresh_generation_def)
  then have "system_step cn cfg (?s (Saving later_publication ?snap))
      (s\<lparr>sm_db := Table (Some r), sm_published := ?snap # sm_published s\<rparr>)"
    using system_step.saves [of "?s (Saving later_publication ?snap)" "?w (Saving later_publication ?snap)" later_publication ?snap cn cfg]
      r(1) assms(2) up by (simp add: new_writer_def)
  with to_save have "(system_step cn cfg)\<^sup>*\<^sup>* s (s\<lparr>sm_db := Table (Some r), sm_published := ?snap # sm_published s\<rparr>)"
    by (rule rtranclp.rtrancl_into_rtrancl)
  then show thesis
    by (rule that [OF _ r(2) gen])
qed

theorem total_outage_keeps_people_and_keys_sample:
  "\<exists>(t :: system) r e. sm_db t = Table (Some r) \<and> po_lastGen (rp_poller (sm_readers t 0)) = pr_Generation r \<and>
     generations (sm_published t) = [9, 7] \<and>
     Keys_Get (Published (po_keys (rp_poller (sm_readers t 0)))) ''bob'' = Some e \<and> en_Keys e = [''ssh-ed25519 B'']"
proof (rule sample_up_with_keys)
  fix p c e r0 snap0 i
  let ?s = "new_system\<lparr>sm_db := Table (Some r0), sm_published := [snap0], sm_writer := Some (new_writer p)\<rparr>"
  let ?step = "system_step (total_outage NameProtocolGuild) sample_config"
  assume s: "runs sample_config new_system ?s"
    and p: "sn_Generation snap0 = 7" "Store_Get (sy_store (pd_syncer p)) = Some i"
      "listed NameProtocolGuild ''reth'' ''bob'' i" "remembers NameProtocolGuild ''reth'' ''bob'' (pd_syncer p)"
      "NameProtocolGuild \<in> Source_Name ` set (pd_sources p)" "pd_keys p = Some c"
      "Cache_Get c ''bob'' = Some e" "en_Keys e = [''ssh-ed25519 B'']"
  obtain snap r where pub: "?step\<^sup>*\<^sup>* ?s (?s\<lparr>sm_db := Table (Some r), sm_published := snap # sm_published ?s\<rparr>)"
    and snap: "row_of snap r" "sn_Generation snap = 9" "sn_Index snap = Some i"
    by (rule outage_publishes [of ?s p "Some r0" i "total_outage NameProtocolGuild" sample_config]) (use p in simp_all)
  let ?t = "?s\<lparr>sm_db := Table (Some r), sm_published := snap # sm_published ?s\<rparr>"
  have gen: "pr_Generation r = 9"
    using snap by (simp add: row_of_def)
  obtain q where q: "?step\<^sup>*\<^sup>* ?t (?t\<lparr>sm_readers := (sm_readers ?t)(0 := \<lparr>rp_poller = q, rp_phase = Resting\<rparr>)\<rparr>)"
    "po_lastGen q = pr_Generation r"
    by (rule new_reader_loads [of ?t r snap 0]) (use snap gen in \<open>simp_all add: new_system_def\<close>)
  let ?u = "?t\<lparr>sm_readers := (sm_readers ?t)(0 := \<lparr>rp_poller = q, rp_phase = Resting\<rparr>)\<rparr>"
  have run: "?step\<^sup>*\<^sup>* ?s ?u"
    using pub q(1) by (rule rtranclp_trans)
  have bob: "toLower ''bob'' = ''bob''"
    by code_simp
  have "\<exists>j e'. Store_Get (po_index (rp_poller (sm_readers ?u 0))) = Some j \<and> lists NameProtocolGuild ''reth'' (toLower ''bob'') j \<and>
      Keys_Get (Published (po_keys (rp_poller (sm_readers ?u 0)))) ''bob'' = Some e' \<and>
      en_Keys e' = en_Keys e \<and> en_FetchedAt e' = en_FetchedAt e"
    by (rule total_outage_keeps_people_and_keys [of sample_config ?s "new_writer p" i NameProtocolGuild "''reth''" "''bob''" c e ?u,
          THEN conjunct2, rule_format, of 0 r])
      (use sample_writer s run p q(2) gen bob bob_kept in \<open>simp_all add: new_writer_def listed_def between_loads_def\<close>)
  with q(2) gen p show ?thesis
    by (intro exI [of _ ?u] exI [of _ r]) (auto simp: snap)
qed

end
