(* ===== verification/LastingOutage.thy ===== *)
theory LastingOutage
  imports KeysOutage
begin

text \<open>
  A total outage over crashes and restarts of the writer. What it then has of the keys is what its
  disk holds: the files of people whom the index goes on listing are not pruned, no failed fetch
  writes, and the saves of the index go to a file of their own.
\<close>

section \<open>What the writer leaves of the keys on its disk\<close>

text \<open>The steps of the writer, its crashes and its starts.\<close>

lemma writer_step_stored:
  assumes "writer_step cn cfg w w'" and down: "\<And>env. cn_keys cn env \<Longrightarrow> upstream_down env"
    and pod: "pod_ok cfg (wr_pod w)" and keeps: "keeps name slug (toLower h) w"
    and "apart (kf_CacheDir (cf_Keys cfg)) (cf_SnapshotPath cfg)"
    and "stored (kf_CacheDir (cf_Keys cfg)) h ks t (pd_fs (wr_pod w))"
  shows "stored (kf_CacheDir (cf_Keys cfg)) h ks t (pd_fs (wr_pod w'))"
  using assms(1)
proof (cases rule: writer_step.cases)
  case (sync_ends mg now env idx s states)
  have "stored (kf_CacheDir (cf_Keys cfg)) h ks t d" if "d \<in> set states" for d
    by (rule finish_sync_saves [OF sync_ends(3) that]) (use Save_stored assms(5,6) pod in \<open>simp add: pod_ok_def\<close>)
  with final_state_in [of "pd_fs (wr_pod w)" states] assms(6) sync_ends(1) show ?thesis by auto
next
  case (walks c ph c' fs)
  have "walk_step upstream_down (wants h) (wr_walk w, c, pd_fs (wr_pod w)) (ph, c', fs)"
    by (rule walk_step_mono [OF walks(3) down]) (use listed_wanted keeps in \<open>auto simp: keeps_def\<close>)
  from walk_step_stored [OF this, of ks t] walks(1,2) assms(6) pod show ?thesis
    by (simp add: pod_ok_def cache_ok_def)
next
  case (answers env rq r h fs kc)
  from answers(2,3) show ?thesis
  proof (cases rule: answer_keys)
    case (2 c c' handle e)
    then show ?thesis
      using down_writes_nothing [OF down [OF answers(4)]] answers(1) assms(6)
      by (fastforce elim!: Cache_RefreshE)
  qed (use answers(1) assms(6) in simp)
qed (use assms(6) in simp_all)

lemma dies_with_stored:
  assumes "dies_with cn w d" and "\<And>env. cn_keys cn env \<Longrightarrow> upstream_down env"
    and "pod_ok cfg (wr_pod w)" and "apart dir (cf_SnapshotPath cfg)" and "stored dir h ks t (pd_fs (wr_pod w))"
  shows "stored dir h ks t d"
  using assms(1)
proof (cases rule: dies_with.cases)
  case (dies_saving mg now env idx s states)
  show ?thesis
    by (rule finish_sync_saves [OF dies_saving(2,3)]) (use Save_stored assms(3-5) in \<open>simp add: pod_ok_def\<close>)
next
  case (dies_writing_keys c env h e c' states)
  with down_writes_nothing assms(2) show ?thesis by fastforce
qed (use assms(5) in simp)

lemma starts_up_stored:
  assumes "starts_up cn cfg db b fs observed s states db'" and "is_writer cfg"
    and "apart dir (cf_SnapshotPath cfg)" and "stored dir h ks t fs" and "d \<in> set (fs # states)"
  shows "stored dir h ks t d"
proof -
  obtain idx where run: "Sync (bt_synced b) (bt_disk b) (map fst observed) (restart_from cfg b db' fs) fs = (idx, s, states)"
    using started_up(7) [OF assms(1,2)] by blast
  obtain s' mg where all: "fetch_all (map fst observed) (restart_from cfg b db' fs) = (s', mg)"
    by fastforce
  have fin: "finish_sync (bt_synced b) (bt_disk b) mg s' fs = (idx, s, states)"
    using run by (simp add: Sync_def all)
  have path: "sy_snapshot s' = cf_SnapshotPath cfg"
    using all by (metis fetch_all_def fold_fetch_frame(4) fold_merge_source_state fst_conv restart_from_frame(2))
  show ?thesis
  proof (cases "d \<in> set states")
    case True
    show ?thesis
      by (rule finish_sync_saves [OF fin True]) (use Save_stored [OF assms(4,3)] in \<open>simp add: path\<close>)
  qed (use assms(4,5) in simp)
qed

section \<open>The system\<close>

text \<open>Every start reads the published snapshot and the key files, and the disk is not lost.\<close>

definition lasting_outage :: "string \<Rightarrow> conditions" where
  "lasting_outage name = (total_outage name)
     \<lparr>cn_boot := (\<lambda>b. bt_load b = Answered \<and> bt_entries b = healthy_reads), cn_loses := False\<rparr>"

lemma lasting_outage_simps [simp]:
  "cn_fetch (lasting_outage name) = outage name" "cn_keys (lasting_outage name) = upstream_down"
  "cn_boot (lasting_outage name) b \<longleftrightarrow> bt_load b = Answered \<and> bt_entries b = healthy_reads"
  "\<not> cn_loses (lasting_outage name)" "permits (source_outage name) (lasting_outage name)"
  by (simp_all add: lasting_outage_def permits_def source_outage_def)

definition endures :: "config \<Rightarrow> string \<Rightarrow> string \<Rightarrow> string \<Rightarrow> string list \<Rightarrow> time \<Rightarrow> snapshot list \<Rightarrow> system \<Rightarrow> bool" where
  "endures cfg name slug h ks t old s \<longleftrightarrow>
     spared cfg name slug (toLower h) s \<and> steady name slug h ks t old s \<and>
     stored (kf_CacheDir (cf_Keys cfg)) h ks t (sm_disk s) \<and>
     (\<forall>w. sm_writer s = Some w \<longrightarrow> stored (kf_CacheDir (cf_Keys cfg)) h ks t (pd_fs (wr_pod w)))"

text \<open>A start during the outage has the keys, and so does the snapshot it publishes.\<close>

lemma boot_holds_both:
  assumes "boots_with (lasting_outage name) cfg db b fs p out" and "is_writer cfg" and "kf_Enabled (cf_Keys cfg)"
    and "apart (kf_CacheDir (cf_Keys cfg)) (cf_SnapshotPath cfg)" and "stored (kf_CacheDir (cf_Keys cfg)) h ks t fs"
    and "keeps name slug (toLower h) (new_writer p)" and "Store_Get (sy_store (pd_syncer p)) = Some idx"
    and "snap = live_snapshot env idx (pd_keys p) statuses"
  shows "holds_both name slug h ks t (new_writer p)" and "shows_both name slug h ks t snap"
    and "stored (kf_CacheDir (cf_Keys cfg)) h ks t (pd_fs p)"
proof -
  obtain db' observed states where up: "starts_up (lasting_outage name) cfg db b fs observed (pd_syncer p) states db'"
    and p: "pd_fs p = final_state fs states"
      "pd_keys p = map_option (Cache_Start (bt_started b) (bt_entries b) (pd_fs p)) (buildKeyCache cfg)"
    by (rule started [OF assms(1,2)])
  show fs: "stored (kf_CacheDir (cf_Keys cfg)) h ks t (pd_fs p)"
    unfolding p(1) by (rule starts_up_stored [OF up assms(2,4,5) final_state_in])
  obtain c where c: "buildKeyCache cfg = Some c" "kc_CacheDir (ca_cfg c) = kf_CacheDir (cf_Keys cfg)"
    using assms(3) by (auto simp: buildKeyCache_def Let_def Cache_New_def)
  let ?c = "Cache_Start (bt_started b) healthy_reads (pd_fs p) c"
  have "bt_entries b = healthy_reads"
    using started_up(3) [OF up assms(2)] by simp
  then have kc: "pd_keys p = Some ?c"
    using p(2) c(1) by simp
  have "cached h ks t (ca_entries ?c)" "gomap (ca_entries ?c)"
    using Cache_Start_stored [of c] fs c new_cache_ok [OF c(1)] by (simp_all add: cache_ok_def)
  with kc assms(6-8) show "holds_both name slug h ks t (new_writer p)" "shows_both name slug h ks t snap"
    by (auto simp: holds_both_def shows_both_def new_writer_def keeps_def serving_def live_snapshot_def Cache_Snapshot_def)
qed

lemma endures_step:
  assumes step: "system_step (lasting_outage name) cfg s s'" and "is_writer cfg" and ok: "system_ok cfg s"
    and keys: "kf_Enabled (cf_Keys cfg)" "apart (kf_CacheDir (cf_Keys cfg)) (cf_SnapshotPath cfg)"
    and "name \<in> Source_Name ` set (fst (buildSources getenv cfg))"
    and "map_of (ExcludedHandles cfg) (toLower h) \<noteq> Some True" and endures: "endures cfg name slug h ks t old s"
  shows "endures cfg name slug h ks t old s'"
proof -
  let ?dir = "kf_CacheDir (cf_Keys cfg)"
  have spared: "spared cfg name slug (toLower h) s" and steady: "steady name slug h ks t old s"
    and disk: "stored ?dir h ks t (sm_disk s)"
    and fs: "\<And>w. sm_writer s = Some w \<Longrightarrow> stored ?dir h ks t (pd_fs (wr_pod w))"
    and keeps: "\<And>w. sm_writer s = Some w \<Longrightarrow> keeps name slug (toLower h) w"
    and pod: "\<And>w. sm_writer s = Some w \<Longrightarrow> pod_ok cfg (wr_pod w)"
    using endures ok by (simp_all add: endures_def spared_def system_ok_def writer_ok_def)
  have below: "\<not> below ?dir (cf_SnapshotPath cfg)"
    using keys(2) by (auto simp: apart_def)
  have up: "holds_both name slug h ks t (new_writer p)" "stored ?dir h ks t (pd_fs p)"
      "shows_both name slug h ks t (live_snapshot (bt_publish b) idx (pd_keys p) (Statuses (pd_syncer p)))"
    if boot: "boots_with (lasting_outage name) cfg (sm_db s) b (sm_disk s) p db"
      and idx: "Store_Get (sy_store (pd_syncer p)) = Some idx" for b p db idx
  proof -
    have "name \<in> Source_Name ` set (fst (buildSources (bt_getenv b) cfg))"
      using assms(6) source_names_env by metis
    then have "keeps name slug (toLower h) (new_writer p)"
      using spared_boot(1) [OF spared boots_with_mono [OF boot] assms(2) _ assms(7)] by simp
    from boot_holds_both [OF boot assms(2) keys disk this idx refl]
    show "holds_both name slug h ks t (new_writer p)" "stored ?dir h ks t (pd_fs p)"
      "shows_both name slug h ks t (live_snapshot (bt_publish b) idx (pd_keys p) (Statuses (pd_syncer p)))"
      by blast+
  qed
  have "spared cfg name slug (toLower h) s'"
    by (rule spared_step [OF system_step_mono [OF step] assms(2) ok below assms(6,7) spared]) simp
  moreover have "steady name slug h ks t old s'"
    by (rule steady_step [OF step ok steady]) (use up in simp_all)
  moreover have "stored ?dir h ks t (sm_disk s') \<and> (\<forall>w. sm_writer s' = Some w \<longrightarrow> stored ?dir h ks t (pd_fs (wr_pod w)))"
    using step
  proof (cases rule: system_step.cases)
    case (works w w')
    with writer_step_stored [OF works(3) _ pod [OF works(2)] keeps [OF works(2)] keys(2) fs [OF works(2)]] disk
    show ?thesis by simp
  next
    case (crashes w d)
    with dies_with_stored [OF crashes(3) _ pod [OF crashes(2)] keys(2) fs [OF crashes(2)]] show ?thesis by simp
  next
    case (boots b p db idx snap)
    with up(2) [OF boots(3,4)] disk show ?thesis by (simp add: new_writer_def)
  next
    case (boot_dies b observed sy states db d)
    with starts_up_stored [OF boot_dies(3) assms(2) keys(2) disk boot_dies(4)] show ?thesis by simp
  qed (use disk fs in simp_all)
  ultimately show ?thesis by (simp add: endures_def)
qed

lemma endures_runs:
  assumes "(system_step (lasting_outage name) cfg)\<^sup>*\<^sup>* s t" and "is_writer cfg" and "system_ok cfg s"
    and "kf_Enabled (cf_Keys cfg)" and "apart (kf_CacheDir (cf_Keys cfg)) (cf_SnapshotPath cfg)"
    and "name \<in> Source_Name ` set (fst (buildSources getenv cfg))"
    and "map_of (ExcludedHandles cfg) (toLower h) \<noteq> Some True" and "endures cfg name slug h ks tm old s"
  shows "endures cfg name slug h ks tm old t"
  using assms(1)
proof (induction rule: rtranclp_induct)
  case base
  then show ?case by (rule assms(8))
next
  case (step t u)
  have "system_ok cfg t"
    using system_ok_runs [OF runs_any [OF step.hyps(1)] assms(2,3)] .
  from endures_step [OF step.hyps(2) assms(2) this assms(4-7) step.IH] show ?case .
qed

section \<open>Every path has one file\<close>

lemma fetchOne_gomap:
  "Cache_fetchOne env h (c, fs) = (e, c', states) \<Longrightarrow> gomap fs \<Longrightarrow> d \<in> set (fs # states) \<Longrightarrow> gomap d"
  using Cache_fetchOne_entry [of env h c fs e c' states] by (auto dest: writeEntry_gomap split: sum.splits)

lemma walk_step_gomap:
  "walk_step world desired x y \<Longrightarrow> gomap (snd (snd x)) \<Longrightarrow> gomap (snd (snd y))"
proof (induction rule: walk_step.induct)
  case (fetch_next env h c fs e c' states before todo delay)
  from fetchOne_gomap [OF fetch_next(2) _ final_state_in] fetch_next(3) show ?case by simp
next
  case (handler_refresh env h c fs e c' fs' p)
  then show ?case
    using fetchOne_gomap [OF _ _ final_state_in] by (auto elim!: Cache_RefreshE)
qed (auto dest: prune_fs)

lemma finish_sync_gomap:
  "finish_sync now env mg s fs = (idx, s', states) \<Longrightarrow> gomap fs \<Longrightarrow> d \<in> set (fs # states) \<Longrightarrow> gomap d"
  using finish_sync_saves Save_gomap by (metis set_ConsD)

lemma writer_step_gomap:
  assumes "writer_step cn cfg w w'" and "gomap (pd_fs (wr_pod w))"
  shows "gomap (pd_fs (wr_pod w'))"
  using assms(1)
proof (cases rule: writer_step.cases)
  case (sync_ends mg now env idx s states)
  from finish_sync_gomap [OF sync_ends(3) assms(2) final_state_in] sync_ends(1) show ?thesis by simp
next
  case (walks c ph c' fs)
  from walk_step_gomap [OF walks(3)] walks(1) assms(2) show ?thesis by simp
next
  case (answers env rq r h fs kc)
  from answers(2,3) show ?thesis
    by (cases rule: answer_keys)
      (use answers(1) assms(2) fetchOne_gomap [OF _ _ final_state_in] in \<open>auto elim!: Cache_RefreshE\<close>)
qed (use assms(2) in simp_all)

lemma dies_with_gomap:
  assumes "dies_with cn w d" and "gomap (pd_fs (wr_pod w))"
  shows "gomap d"
  using assms(1)
proof (cases rule: dies_with.cases)
  case (dies_saving mg now env idx s states)
  from finish_sync_gomap [OF dies_saving(2) assms(2), of d] dies_saving(3) show ?thesis by simp
next
  case (dies_writing_keys c env h e c' states)
  from fetchOne_gomap [OF dies_writing_keys(3) assms(2), of d] dies_writing_keys(4) show ?thesis by simp
qed (use assms(2) in simp)

lemma disk_gomap:
  assumes "runs cfg new_system t" and "is_writer cfg"
  shows "gomap (sm_disk t) \<and> (\<forall>w. sm_writer t = Some w \<longrightarrow> gomap (pd_fs (wr_pod w)))"
  using assms(1)
proof (induction rule: rtranclp_induct)
  case base
  then show ?case by (simp add: new_system_def)
next
  case (step t u)
  have up: "gomap d" if "starts_up anything cfg (sm_db t) b (sm_disk t) observed sy states db" "d \<in> set (sm_disk t # states)"
    for b observed sy states db d
  proof -
    note start = that
    obtain idx where "Sync (bt_synced b) (bt_disk b) (map fst observed) (restart_from cfg b db (sm_disk t)) (sm_disk t) = (idx, sy, states)"
      using started_up(7) [OF start(1) assms(2)] by blast
    then show ?thesis
      using finish_sync_gomap [OF _ _ start(2)] step.IH by (auto simp: Sync_def split: prod.splits)
  qed
  from step.hyps(2) step.IH show ?case
  proof (cases rule: system_step.cases)
    case (works w w')
    with writer_step_gomap [OF works(3)] step.IH show ?thesis by simp
  next
    case (crashes w d)
    with dies_with_gomap [OF crashes(3)] step.IH show ?thesis by simp
  next
    case (boots b p db idx snap)
    show ?thesis
      by (rule started [OF boots(3) assms(2)]) (use boots(1) up final_state_in step.IH in \<open>simp add: new_writer_def\<close>)
  next
    case (boot_dies b observed sy states db d)
    with up step.IH show ?thesis by simp
  qed (use step.IH in auto)
qed

section \<open>The outage\<close>

text \<open>
  C16. While a source fails and GitHub answers no request for keys, a person whom the
  published row lists for the source and whose keys a start would load from the disk stays
  in the index of the writer with the keys and their fetch time unchanged, however often
  the writer crashes, in the middle of a save too, and starts again on that disk, and
  however syncs, walker, requests and publications interleave; every reader that loads a
  snapshot published meanwhile serves the person and the keys. The starts can read the row
  and the key files, and the snapshot file lies apart from these and lists the person if
  it exists.
\<close>

theorem total_outage_outlives_restarts:
  assumes "is_writer cfg" and "runs cfg new_system s" and "sm_writer s = None"
    and "loadPublishedIndex Answered (sm_db s) = Some i" and "lists name slug (toLower h) i"
    and "file_holds (lists name slug (toLower h)) (cf_SnapshotPath cfg) (sm_disk s)"
    and "name \<in> Source_Name ` set (fst (buildSources getenv cfg))"
    and "map_of (ExcludedHandles cfg) (toLower h) \<noteq> Some True"
    and "kf_Enabled (cf_Keys cfg)" and "apart (kf_CacheDir (cf_Keys cfg)) (cf_SnapshotPath cfg)"
    and "loadCache healthy_reads (kf_CacheDir (cf_Keys cfg)) (sm_disk s) = Inr out" and "map_of out (toLower h) = Some e"
    and "(system_step (lasting_outage name) cfg)\<^sup>*\<^sup>* s t"
  shows "(\<forall>w. sm_writer t = Some w \<longrightarrow>
      (\<exists>j c e'. Store_Get (sy_store (pd_syncer (wr_pod w))) = Some j \<and> lists name slug (toLower h) j \<and>
         pd_keys (wr_pod w) = Some c \<and> Cache_Get c h = Some e' \<and>
         en_Keys e' = en_Keys e \<and> en_FetchedAt e' = en_FetchedAt e)) \<and>
    (\<forall>n r. between_loads (sm_readers t n) \<and> sm_db t = Table (Some r) \<and>
       po_lastGen (rp_poller (sm_readers t n)) = pr_Generation r \<and> pr_Generation r \<notin> set (generations (sm_published s)) \<longrightarrow>
       (\<exists>j e'. Store_Get (po_index (rp_poller (sm_readers t n))) = Some j \<and> lists name slug (toLower h) j \<and>
         Keys_Get (Published (po_keys (rp_poller (sm_readers t n)))) h = Some e' \<and>
         en_Keys e' = en_Keys e \<and> en_FetchedAt e' = en_FetchedAt e))"
proof -
  have ok: "system_ok cfg s"
    by (rule system_ok_reachable [OF assms(2,1)])
  have "stored (kf_CacheDir (cf_Keys cfg)) h (en_Keys e) (en_FetchedAt e) (sm_disk s)"
    using disk_gomap [OF assms(2,1)] assms(11,12) by (simp add: stored_def cached_def)
  moreover have "spared cfg name slug (toLower h) s"
    by (rule spared_by_row [OF ok assms(3-6)])
  ultimately have "endures cfg name slug h (en_Keys e) (en_FetchedAt e) (sm_published s) s"
    by (simp add: endures_def steady_def assms(3))
  from endures_runs [OF assms(13,1) ok assms(9,10,7,8) this]
  have "steady name slug h (en_Keys e) (en_FetchedAt e) (sm_published s) t"
    by (simp add: endures_def)
  from steady_serves [OF system_okD(3) [OF system_ok_runs [OF runs_any [OF assms(13)] assms(1) ok]] this] show ?thesis .
qed

section \<open>A sample outage\<close>

text \<open>The writer fetches the keys of one person and crashes; then everything is unreachable.\<close>

lemma sample_crash_with_keys:
  obtains s r snap i out e where "runs sample_config new_system s" "sm_writer s = None" "sm_db s = Table (Some r)"
    "sm_published s = [snap]" "sm_readers s = (\<lambda>_. new_reading)" "row_of snap r" "sn_Generation snap = 7"
    "sn_Index snap = Some i" "listed NameProtocolGuild ''reth'' ''bob'' i"
    "loadCache healthy_reads (kf_CacheDir (cf_Keys sample_config)) (sm_disk s) = Inr out"
    "map_of out (toLower ''bob'') = Some e" "en_Keys e = [''ssh-ed25519 B'']"
proof (rule sample_up_with_keys)
  fix p c e r snap i
  let ?up = "new_system\<lparr>sm_db := Table (Some r), sm_published := [snap], sm_writer := Some (new_writer p)\<rparr>"
  let ?down = "?up\<lparr>sm_writer := None, sm_disk := pd_fs p\<rparr>"
  assume up: "runs sample_config new_system ?up"
    and row: "row_of snap r" "sn_Generation snap = 7" "sn_Index snap = Some i" "listed NameProtocolGuild ''reth'' ''bob'' i"
    and e: "en_Keys e = [''ssh-ed25519 B'']"
      "stored (kf_CacheDir (cf_Keys sample_config)) ''bob'' (en_Keys e) (en_FetchedAt e) (pd_fs p)"
  have "system_step anything sample_config ?up ?down"
    using system_step.crashes [of ?up "new_writer p", OF _ dies_at_rest] by (simp add: new_writer_def)
  with up have down: "runs sample_config new_system ?down"
    by (rule rtranclp.rtrancl_into_rtrancl)
  obtain out f where "loadCache healthy_reads (kf_CacheDir (cf_Keys sample_config)) (sm_disk ?down) = Inr out"
    "map_of out (toLower ''bob'') = Some f" "en_Keys f = [''ssh-ed25519 B'']"
    using e by (auto simp: stored_def cached_def split: sum.splits option.splits)
  with that [of ?down r snap i out f] down row show thesis
    by (simp add: new_system_def)
qed

theorem total_outage_outlives_restarts_sample:
  "\<exists>(t :: system) w r e. sm_writer t = Some w \<and> sm_db t = Table (Some r) \<and> generations (sm_published t) = [9, 7] \<and>
     po_lastGen (rp_poller (sm_readers t 0)) = pr_Generation r \<and>
     Keys_Get (Published (po_keys (rp_poller (sm_readers t 0)))) ''bob'' = Some e \<and> en_Keys e = [''ssh-ed25519 B'']"
proof (rule sample_crash_with_keys)
  fix s r1 snap1 i1 out e
  assume s: "runs sample_config new_system s" "sm_writer s = None" "sm_db s = Table (Some r1)"
      "sm_published s = [snap1]" "sm_readers s = (\<lambda>_. new_reading)"
    and row: "row_of snap1 r1" "sn_Generation snap1 = 7" "sn_Index snap1 = Some i1"
      "listed NameProtocolGuild ''reth'' ''bob'' i1"
    and keys: "loadCache healthy_reads (kf_CacheDir (cf_Keys sample_config)) (sm_disk s) = Inr out"
      "map_of out (toLower ''bob'') = Some e" "en_Keys e = [''ssh-ed25519 B'']"
  obtain t w r where t: "(system_step (lasting_outage NameProtocolGuild) sample_config)\<^sup>*\<^sup>* s t" "sm_writer t = Some w"
    "sm_db t = Table (Some r)" "generations (sm_published t) = [9, 7]" "pr_Generation r = 9"
    "\<And>n. n < 2 \<Longrightarrow> between_loads (sm_readers t n) \<and> po_lastGen (rp_poller (sm_readers t n)) = pr_Generation r"
    by (rule sample_restart [OF s(2-4) row(2) s(5), of "lasting_outage NameProtocolGuild"])
      (simp_all add: outage_def guild_unreachable_simps sample_boots)
  have bob: "toLower ''bob'' = ''bob''"
    by code_simp
  have name: "NameProtocolGuild \<in> Source_Name ` set (fst (buildSources (\<lambda>_. []) sample_config))"
    by (simp add: sample_sources)
  have enabled: "kf_Enabled (cf_Keys sample_config)"
    by (simp add: sample_config_def Default_def)
  have "\<exists>j e'. Store_Get (po_index (rp_poller (sm_readers t 0))) = Some j \<and> lists NameProtocolGuild ''reth'' (toLower ''bob'') j \<and>
      Keys_Get (Published (po_keys (rp_poller (sm_readers t 0)))) ''bob'' = Some e' \<and>
      en_Keys e' = en_Keys e \<and> en_FetchedAt e' = en_FetchedAt e"
    by (rule total_outage_outlives_restarts [OF sample_writer s(1,2) sample_row(1) [OF s(3) row(1,3,4)] _ _ name _ enabled _
          keys(1,2) t(1), THEN conjunct2, rule_format, where n = 0 and r = r])
      (use t sample_row(2) [OF s(3) row(1,3,4)] bob_kept s(4) row(2) in \<open>simp_all add: bob sample_boots apart_def\<close>)
  with t keys(3) show ?thesis by fastforce
qed

end
