(* ===== verification/Convergence.thy ===== *)
theory Convergence
  imports ClusterProps
begin

text \<open>
  A reader whose database answers comes to serve the published row, wherever its load is: also when
  it has looked at an older generation, or is swapping an older snapshot in, and so ends that load
  with a generation that is not the row's.
\<close>

section \<open>A reader whose database answers\<close>

text \<open>What the reader does next when the database answers: a run of the relation without failures.\<close>

definition proceed :: "db \<Rightarrow> reading \<Rightarrow> reading" where
  "proceed db rd =
     (case rp_phase rd of
        Resting \<Rightarrow>
          (case Poller_check Answered db (rp_poller rd) of
             Inr (Some gen) \<Rightarrow> rd\<lparr>rp_phase := Checked gen\<rparr> | _ \<Rightarrow> rd)
      | Checked gen \<Rightarrow>
          (case Poller_read Answered db of
             Inr (Some parsed) \<Rightarrow> rd\<lparr>rp_phase := Swapping gen parsed all_swaps\<rparr>
           | _ \<Rightarrow> rd\<lparr>rp_phase := Resting\<rparr>)
      | Swapping gen parsed [] \<Rightarrow> rd\<lparr>rp_phase := Resting\<rparr>
      | Swapping gen parsed (x # todo) \<Rightarrow>
          \<lparr>rp_poller = swap_in gen parsed x (rp_poller rd), rp_phase = Swapping gen parsed todo\<rparr>)"

lemma proceed_steps: "(reader_step db)\<^sup>*\<^sup>* rd ((proceed db ^^ n) rd)"
proof (induction n)
  case (Suc n)
  have "reader_step db x (proceed db x) \<or> proceed db x = x" for x
  proof (cases x)
    case (fields p phase)
    show ?thesis
    proof (cases phase)
      case (Checked gen)
      then show ?thesis
        by (cases "Poller_read Answered db"; cases "projr (Poller_read Answered db)")
          (auto simp: fields proceed_def intro: reader_step.reads reader_step.fails)
    next
      case (Swapping gen parsed todo)
      then show ?thesis
        by (cases todo) (auto simp: fields proceed_def intro: reader_step.swaps reader_step.rests)
    qed (auto simp: fields proceed_def intro: reader_step.checks split: sum.split option.split)
  qed
  with Suc.IH show ?case
    by (metis funpow.simps(2) o_apply rtranclp.rtrancl_into_rtrancl)
qed simp

definition settled :: "row \<Rightarrow> snapshot list \<Rightarrow> reading \<Rightarrow> bool" where
  "settled r snaps rd \<longleftrightarrow> rp_phase rd = Resting \<and> po_lastGen (rp_poller rd) = pr_Generation r \<and>
     (\<exists>s\<in>set snaps. row_of s r \<and> serves (rp_poller rd) s)"

lemma settled_stays: "settled r snaps rd \<Longrightarrow> (proceed (Table (Some r)) ^^ n) rd = rd"
  by (induction n) (simp_all add: settled_def proceed_def Poller_check_def answered_queries)

lemma swaps_to_rest:
  "(proceed db ^^ Suc (length todo)) \<lparr>rp_poller = p, rp_phase = Swapping gen parsed todo\<rparr> =
     \<lparr>rp_poller = swap_all gen parsed todo p, rp_phase = Resting\<rparr>"
proof (induction todo arbitrary: p)
  case (Cons x todo)
  have "proceed db \<lparr>rp_poller = p, rp_phase = Swapping gen parsed (x # todo)\<rparr> =
      \<lparr>rp_poller = swap_in gen parsed x p, rp_phase = Swapping gen parsed todo\<rparr>"
    by (simp add: proceed_def)
  with Cons.IH [of "swap_in gen parsed x p"] show ?case
    by (simp add: funpow_swap1 swap_all_simps del: swap_in.simps)
qed (simp add: proceed_def swap_all_simps)

text \<open>From rest, one load of seven steps leads to the row.\<close>

lemma rest_settles:
  assumes "db_ok (Table (Some r)) snaps" and "reading_ok (Table (Some r)) snaps \<lparr>rp_poller = p, rp_phase = Resting\<rparr>"
  shows "settled r snaps ((proceed (Table (Some r)) ^^ 7) \<lparr>rp_poller = p, rp_phase = Resting\<rparr>)"
proof -
  let ?db = "Table (Some r)" and ?gen = "pr_Generation r"
  obtain s where s: "s \<in> set snaps" "row_of s r"
    using db_okD(1) [OF assms(1)] by blast
  show ?thesis
  proof (cases "po_lastGen p = ?gen")
    case True
    have "?gen \<noteq> 0"
      using db_okD(3) [OF assms(1)] s in_generations by (fastforce simp: row_of_def)
    with True assms(2) have "settled r snaps \<lparr>rp_poller = p, rp_phase = Resting\<rparr>"
      by (auto simp: settled_def poller_ok_def newPoller_def)
    then show ?thesis by (simp add: settled_stays)
  next
    case False
    have begins: "proceed ?db \<lparr>rp_poller = p, rp_phase = Resting\<rparr> = \<lparr>rp_poller = p, rp_phase = Checked ?gen\<rparr>"
      "proceed ?db \<lparr>rp_poller = p, rp_phase = Checked ?gen\<rparr> =
        \<lparr>rp_poller = p, rp_phase = Swapping ?gen (norm_snapshot s) all_swaps\<rparr>"
      using False by (auto simp: proceed_def Poller_check_def answered_queries answered_read [OF s(2)])
    have seven: "(7::nat) = Suc (length all_swaps) + 2"
      by (simp add: all_swaps_def)
    have two: "(f ^^ (k + 2)) x = (f ^^ k) (f (f x))" for f :: "reading \<Rightarrow> reading" and k x
      by (simp add: funpow_swap1)
    have "(proceed ?db ^^ 7) \<lparr>rp_poller = p, rp_phase = Resting\<rparr> =
        (proceed ?db ^^ Suc (length all_swaps)) \<lparr>rp_poller = p, rp_phase = Swapping ?gen (norm_snapshot s) all_swaps\<rparr>"
      by (simp only: seven two begins)
    then show ?thesis
      using swap_all_serves [OF db_okD(2) [OF assms(1) s(1)], of ?gen p] s
      by (auto simp: swaps_to_rest settled_def simp del: funpow.simps)
  qed
qed

lemma comes_to_rest:
  assumes "reading_ok db snaps rd"
  shows "\<exists>m\<le>6. rp_phase ((proceed db ^^ m) rd) = Resting"
proof (cases rd)
  case (fields p phase)
  have swapping: "\<exists>m\<le>5. rp_phase ((proceed db ^^ m) \<lparr>rp_poller = p, rp_phase = Swapping gen parsed todo\<rparr>) = Resting"
    if "length todo \<le> 4" for gen parsed todo
    using that swaps_to_rest [of todo db p gen parsed] by (intro exI [of _ "Suc (length todo)"]) (simp del: funpow.simps)
  show ?thesis
  proof (cases phase)
    case Resting
    then show ?thesis by (intro exI [of _ 0]) (simp add: fields)
  next
    case (Checked gen)
    show ?thesis
    proof (cases "rp_phase (proceed db rd) = Resting")
      case True
      then show ?thesis by (intro exI [of _ 1]) simp
    next
      case False
      then obtain parsed where "proceed db rd = \<lparr>rp_poller = p, rp_phase = Swapping gen parsed all_swaps\<rparr>"
        by (auto simp: fields Checked proceed_def split: sum.splits option.splits)
      with swapping [of all_swaps gen parsed] obtain m where "m \<le> 5" "rp_phase ((proceed db ^^ m) (proceed db rd)) = Resting"
        by (auto simp: all_swaps_def)
      then show ?thesis
        by (intro exI [of _ "Suc m"]) (simp add: funpow_swap1)
    qed
  next
    case (Swapping gen parsed todo)
    then have "length todo \<le> 4"
      using assms by (auto simp: fields swapping_ok_def all_swaps_def dest!: arg_cong [where f = length])
    from swapping [OF this, of gen parsed] obtain m where
      "m \<le> 5" "rp_phase ((proceed db ^^ m) \<lparr>rp_poller = p, rp_phase = Swapping gen parsed todo\<rparr>) = Resting"
      by blast
    then show ?thesis
      by (intro exI [of _ m]) (simp add: fields Swapping)
  qed
qed

text \<open>
  C11. From every reachable state and wherever its load is, a reader whose database
  answers comes, within thirteen steps and without a publication in between, to serve the
  row of the database with the generation of the row, and stays there; also when it had
  looked at an older generation.
\<close>

theorem answered_reader_converges:
  assumes "cluster_step\<^sup>*\<^sup>* new_cluster c" and "cl_db c = Table (Some r)" and "n \<ge> 13"
  shows "(reader_step (cl_db c))\<^sup>*\<^sup>* (cl_readers c i) ((proceed (cl_db c) ^^ n) (cl_readers c i)) \<and>
    settled r (cl_published c) ((proceed (cl_db c) ^^ n) (cl_readers c i))"
proof
  let ?db = "cl_db c" and ?rd = "cl_readers c i"
  show "(reader_step ?db)\<^sup>*\<^sup>* ?rd ((proceed ?db ^^ n) ?rd)"
    by (rule proceed_steps)
  have ok: "db_ok ?db (cl_published c)" "reading_ok ?db (cl_published c) ?rd"
    using cluster_okD [OF cluster_ok_reachable [OF assms(1)]] by blast+
  obtain m where m: "m \<le> 6" "rp_phase ((proceed ?db ^^ m) ?rd) = Resting"
    using comes_to_rest [OF ok(2)] by blast
  have "reading_ok ?db (cl_published c) x" if "(reader_step ?db)\<^sup>*\<^sup>* ?rd x" for x
    using that by (induction rule: rtranclp_induct) (auto intro: ok(2) reader_step_ok [OF _ ok(1)])
  then have "reading_ok ?db (cl_published c) ((proceed ?db ^^ m) ?rd)"
    using proceed_steps by blast
  then have "settled r (cl_published c) ((proceed ?db ^^ 7) ((proceed ?db ^^ m) ?rd))"
    using rest_settles [of r "cl_published c" "rp_poller ((proceed ?db ^^ m) ?rd)"] ok(1) m(2) assms(2)
    by (cases "(proceed ?db ^^ m) ?rd") simp
  moreover obtain k where "n = k + (7 + m)"
    by (rule that [of "n - (7 + m)"]) (use assms(3) m(1) in simp)
  ultimately show "settled r (cl_published c) ((proceed ?db ^^ n) ?rd)"
    using settled_stays [of r "cl_published c" "(proceed ?db ^^ 7) ((proceed ?db ^^ m) ?rd)" k] assms(2)
    by (simp add: funpow_add)
qed

text \<open>The reader in the middle of its load of the second snapshot.\<close>

theorem answered_reader_converges_sample:
  "settled later_row [later_snapshot, sample_snapshot]
     ((proceed (Table (Some later_row)) ^^ 13) (cl_readers mixing_cluster 0))"
proof -
  have c: "cl_db mixing_cluster = Table (Some later_row)" "cl_published mixing_cluster = [later_snapshot, sample_snapshot]"
    by (simp_all add: mixing_cluster_def)
  show ?thesis
    using answered_reader_converges [OF mixing_reachable c(1), of 13 0] by (simp add: c)
qed

end
