(* ===== verification/ConfigProps.thy ===== *)
theory ConfigProps
  imports ProgramProps
begin

text \<open>
  What the configuration guarantees to the rest of the program: the sources report no team that
  the registry does not name, and the program goes on with a configuration exactly when
  validation accepts it.
\<close>

section \<open>What the sources may say\<close>

lemma manual_rows_configured:
  assumes "gomap (cf_Teams cfg)" and "Manual_Fetch (Manual_New (ManualMembers cfg)) = Inr rows" and "m \<in> set rows"
  shows "ms_Team m \<in> keys_of (cf_Teams cfg)"
proof -
  have "gomap (ManualMembers cfg)"
    using ManualMembers_spec [OF assms(1)] by blast
  then obtain team hs where "map_of (ManualMembers cfg) team = Some hs" "ms_Team m = team"
    using Manual_Fetch_rows [OF _ assms(2) [unfolded Manual_New_def], of m] assms(3) by (auto simp: manual_row_def)
  then show ?thesis
    using ManualMembers_spec [OF assms(1), of team hs] by (auto simp: keys_of_dom)
qed

lemma guild_rows_configured:
  assumes "Guild_Fetch http s = (Inr rows, s')" and "pg_sections s = SectionTeams cfg" and "m \<in> set rows"
  shows "ms_Team m \<in> keys_of (cf_Teams cfg)"
proof -
  obtain body seen where "parse s body = (rows, seen)"
    using Guild_Fetch_rows [OF assms(1)] by blast
  from parse_ok [OF this assms(3)] obtain sec where "map_of (SectionTeams cfg) sec = Some (ms_Team m)"
    by (auto simp: assms(2))
  then show ?thesis
    using SectionTeams_spec [of cfg sec] by force
qed

lemma org_rows_configured:
  assumes "Org_Fetch s http = Some (Inr rows)" and "og_orgTeams s = OrgTeams cfg" and "m \<in> set rows"
  shows "ms_Team m \<in> keys_of (cf_Teams cfg)"
proof -
  obtain org slugs where "map_of (OrgTeams cfg) org = Some slugs" "ms_Team m \<in> set slugs"
    using assms
    by (auto simp: Org_Fetch_def fetch_orgs_eq rows_of_org_def org_rows_def teams_of_org_def org_row_def
        split: if_splits option.splits sum.splits) metis
  then have "\<exists>team. (ms_Team m, team) \<in> set (cf_Teams cfg) \<and> org \<in> set (tc_GitHubOrgs team)"
    using OrgTeams_spec [of cfg org "ms_Team m"] by blast
  then show ?thesis by force
qed

text \<open>
  C36. Every row of every source built from the configuration is well formed, carries the
  name of its source and names a team of the registry.
\<close>

theorem sources_name_configured_teams:
  assumes "gomap (cf_Teams cfg)" and "src \<in> set (fst (buildSources getenv cfg))"
    and "observe w src = Some (f, src')" and "fe_Result f = Inr rows" and "m \<in> set rows"
  shows "well_formed_row (Source_Name src) m \<and> ms_Team m \<in> keys_of (cf_Teams cfg)"
proof (cases src)
  case (Manual_source s)
  then have "s = Manual_New (ManualMembers cfg)" and "Manual_Fetch s = Inr rows"
    using assms by (auto simp: buildSources_def Let_def fetched_from_def split: if_splits)
  then show ?thesis
    using manual_rows_configured [OF assms(1)] manual.fetch_rows [of s] assms(5) Manual_source by auto
next
  case (Guild_source s)
  then have "pg_sections s = SectionTeams cfg" and f: "fst (Guild_Fetch (wd_http w) s) = Inr rows"
    using assms by (auto simp: buildSources_def Let_def Guild_New_def fetched_from_def split: if_splits prod.splits)
  moreover from f have "Guild_Fetch (wd_http w) s = (Inr rows, snd (Guild_Fetch (wd_http w) s))"
    by (simp add: prod_eq_iff)
  ultimately show ?thesis
    using guild_rows_configured protocol_guild.fetch_rows [of "(wd_http w, s)" rows m] assms(5) Guild_source by auto
next
  case (Org_source s)
  then have "og_orgTeams s = OrgTeams cfg" and f: "Org_Fetch s (wd_github w) = Some (Inr rows)"
    using assms by (auto simp: buildSources_def Let_def NewSource_def fetched_from_def split: if_splits)
  then show ?thesis
    using org_rows_configured github_org.fetch_rows [of "(s, wd_github w)" rows m] assms(5) Org_source
    by (auto simp: Org_result_def)
qed

definition manual_config :: config where
  "manual_config = sample_config\<lparr>cf_Teams := [(''core'', \<lparr>tc_DisplayName = [], tc_Kind = ''client'', tc_Layer = ''el'',
     tc_ProtocolGuildSections = [], tc_GitHubOrgs = [], tc_Members = [''Ann'']\<rparr>)]\<rparr>"

theorem sources_name_configured_teams_sample:
  "well_formed_row NameManual (manual_row ''core'' ''Ann'') \<and> ms_Team (manual_row ''core'' ''Ann'') \<in> keys_of (cf_Teams manual_config)"
proof -
  have "Manual_source (Manual_New [(''core'', [''Ann''])]) \<in> set (fst (buildSources (\<lambda>_. []) manual_config))"
    by (simp add: buildSources_def manual_config_def ManualMembers_def Let_def)
  moreover have "Manual_Fetch (Manual_New [(''core'', [''Ann''])]) = Inr [manual_row ''core'' ''Ann'']"
    by (simp add: Manual_Fetch_def Manual_New_def sortedTeams_def handles_for_def)
  ultimately show ?thesis
    using sources_name_configured_teams [of manual_config "Manual_source (Manual_New [(''core'', [''Ann''])])" "\<lambda>_. []"
        "bt_world (sample_boot Answered)" "fetched_from (bt_world (sample_boot Answered)) NameManual (Inr [manual_row ''core'' ''Ann'']) []"
        "Manual_source (Manual_New [(''core'', [''Ann''])])" "[manual_row ''core'' ''Ann'']" "manual_row ''core'' ''Ann''"]
    by (simp add: manual_config_def gomap_def fetched_from_def)
qed

section \<open>The configuration it runs with\<close>

text \<open>The configuration of the file, with the role of the command line when it gives one.\<close>

definition with_role :: "string \<Rightarrow> config \<Rightarrow> config" where
  "with_role role cfg =
     (if role = [] then cfg else cfg\<lparr>cf_Cluster := (cf_Cluster cfg)\<lparr>cc_Role := role\<rparr>\<rparr>)"

text \<open>
  C37. The program goes on with a configuration exactly when the file can be read and
  parsed over the defaults, the result is valid, and it stays valid with the role of the
  command line.
\<close>

theorem run_accepts_exactly_valid_configs:
  "effective_config read_file unmarshal path role = Inr cfg \<longleftrightarrow>
   (\<exists>data file_cfg. read_file path = Inr data \<and> unmarshal data Default = Inr file_cfg \<and>
      valid_config file_cfg \<and> valid_config cfg \<and> cfg = with_role role file_cfg)"
  unfolding validate_None [symmetric]
  by (auto simp: effective_config_def Load_def Validate_def with_role_def Let_def
      split: sum.splits option.splits if_splits)

end
