(* ===== verification/Lifecycle.thy ===== *)
theory Lifecycle
  imports ProgramProps
begin

text \<open>
  The life of a process (\<open>run\<close> of \<open>cmd/coredevs/main.go\<close>): what it starts, what it serves
  with, how it ends, and the cleanups it runs on every way out.
\<close>

section \<open>Services\<close>

text \<open>What a process may hold: the connection pool of the database and the background goroutines.\<close>

datatype service = Pool | Syncer_loop | Key_walker | Publisher | Poller

datatype event = Started service | Serving handler | Shut_down | Stopped service

text \<open>
  The list of cleanups. Each start of a service appends its \<open>Stop\<close> (\<open>Close\<close> for the
  pool); the deferred loop of \<open>run\<close> calls them from the last to the first.
\<close>

fun run_cleanups :: "service list \<Rightarrow> nat \<Rightarrow> event list" where
  "run_cleanups cleanups 0 = []"
| "run_cleanups cleanups (Suc i) = Stopped (cleanups ! i) # run_cleanups cleanups i"

text \<open>
  What \<open>startSyncing\<close> and \<open>startReader\<close> have started when they succeed. Only the
  connection can fail, and nothing is started before it.
\<close>

definition syncing_cleanups :: "config \<Rightarrow> service list" where
  "syncing_cleanups cfg =
     (let cleanups = (if is_writer cfg then [Pool] else []) @ [Syncer_loop];
          cleanups = (if buildKeyCache cfg \<noteq> None then cleanups @ [Key_walker] else cleanups)
      in if is_writer cfg then cleanups @ [Publisher] else cleanups)"

definition reader_cleanups :: "service list" where
  "reader_cleanups = [Pool, Poller]"

fun process_cleanups :: "config \<Rightarrow> process \<Rightarrow> service list" where
  "process_cleanups cfg (Reading p) = reader_cleanups"
| "process_cleanups cfg (Syncing p) = syncing_cleanups cfg"

section \<open>The run\<close>

text \<open>
  How serving ends: a signal (or a cancelled context), with the answer of \<open>srv.Shutdown\<close>, or
  the failure of \<open>ListenAndServe\<close>.
\<close>

datatype serve_end = Signalled "error option" | Listen_failed error

datatype exit_error = Config_error run_error | Start_error error | Serve_error error | Shutdown_error error

definition serve_until :: "handler \<Rightarrow> serve_end \<Rightarrow> exit_error option \<times> event list" where
  "serve_until h outcome =
     (case outcome of
        Listen_failed e \<Rightarrow> (Some (Serve_error e), [Serving h])
      | Signalled (Some e) \<Rightarrow> (Some (Shutdown_error e), [Serving h, Shut_down])
      | Signalled None \<Rightarrow> (None, [Serving h, Shut_down]))"

text \<open>\<open>None\<close>: the start does not end, because a listing of GitHub does not.\<close>

definition run_program ::
    "(string \<Rightarrow> error + 'data) \<Rightarrow> ('data \<Rightarrow> config \<Rightarrow> error + config) \<Rightarrow> string \<Rightarrow> string \<Rightarrow>
     boot \<Rightarrow> pg_answer \<Rightarrow> db \<times> fs \<Rightarrow> serve_end \<Rightarrow> (exit_error option \<times> event list) option" where
  "run_program read_file unmarshal path role b generation_ans state outcome =
     (case effective_config read_file unmarshal path role of
        Inl e \<Rightarrow> Some (Some (Config_error e), [])
      | Inr cfg \<Rightarrow>
          (case start_role cfg b generation_ans state of
             None \<Rightarrow> None
           | Some (Inl e, _) \<Rightarrow> Some (Some (Start_error e), [])
           | Some (Inr p, _) \<Rightarrow>
               let cleanups = process_cleanups cfg p
               in case serve_until (process_handler cfg p) outcome of
                    (err, events) \<Rightarrow>
                      Some (err, map Started cleanups @ events @ run_cleanups cleanups (length cleanups))))"

text \<open>
  The command: the flags that cobra parsed, or its error, and the exit status of the process.
\<close>

record flags =
  fg_config :: "string option"
  fg_role :: "string option"

definition main_status ::
    "(string \<Rightarrow> error + 'data) \<Rightarrow> ('data \<Rightarrow> config \<Rightarrow> error + config) \<Rightarrow> error + flags \<Rightarrow>
     boot \<Rightarrow> pg_answer \<Rightarrow> db \<times> fs \<Rightarrow> serve_end \<Rightarrow> nat option" where
  "main_status read_file unmarshal parsed b generation_ans state outcome =
     (case parsed of
        Inl e \<Rightarrow> Some 1
      | Inr fg \<Rightarrow>
          let path = (case fg_config fg of None \<Rightarrow> ''config.yaml'' | Some p \<Rightarrow> p);
              role = (case fg_role fg of None \<Rightarrow> [] | Some r \<Rightarrow> r)
          in map_option (\<lambda>(err, _). if err = None then 0 else 1)
               (run_program read_file unmarshal path role b generation_ans state outcome))"

section \<open>Every way out\<close>

lemma run_cleanups_rev: "n \<le> length cleanups \<Longrightarrow> run_cleanups cleanups n = map Stopped (rev (take n cleanups))"
  by (induction n) (simp_all add: take_Suc_conv_app_nth)

lemma process_cleanups_ok:
  "distinct (process_cleanups cfg p)"
  "Publisher \<in> set (process_cleanups cfg p) \<or> Poller \<in> set (process_cleanups cfg p) \<longrightarrow> hd (process_cleanups cfg p) = Pool"
  by (cases p; simp add: syncing_cleanups_def reader_cleanups_def Let_def)+


text \<open>The process exits with status 0 after a signal and a clean shutdown only.\<close>

lemma exit_zero_after_clean_shutdown:
  assumes "main_status read_file unmarshal parsed b generation_ans state outcome = Some 0"
  shows "outcome = Signalled None"
proof -
  obtain path role events where "run_program read_file unmarshal path role b generation_ans state outcome = Some (None, events)"
    using assms by (auto simp: main_status_def Let_def split: sum.splits if_splits)
  then have "\<exists>h. fst (serve_until h outcome) = None"
    by (auto simp: run_program_def Let_def split: sum.splits option.splits prod.splits) (metis fst_conv)
  then show ?thesis
    by (cases outcome) (auto simp: serve_until_def split: option.splits)
qed

lemma sample_valid: "validate sample_config = None"
  by code_simp


end
